theory Spec2Isabelle
  imports Main "HOL-Library.Sublist"
begin

section \<open>Sandboxed task execution (law/sandbox/base.py)\<close>

text \<open>
  Exceptions of the source are values. The source raises \<open>ValueError\<close> for a malformed
  key and plain \<open>Exception\<close> objects with a message everywhere else; the constructors
  below keep what each message carries.
\<close>

datatype error =
    FormatError string
      \<comment> \<open>\<open>ValueError("invalid sandbox key ...")\<close>, carrying the key\<close>
  | UnknownSandboxType string
      \<comment> \<open>\<open>Exception("no sandbox with type '{}' found")\<close>, carrying the type\<close>
  | MissingSandboxError
      \<comment> \<open>\<open>Exception("task {!r} requires the sandbox parameter to be set")\<close>\<close>
  | SandboxRunFailure string int
      \<comment> \<open>\<open>Exception("sandbox '{}' failed with exit code {}, ...")\<close>: key and exit code\<close>
  | IndexError
      \<comment> \<open>\<open>pop(0)\<close> on an empty list, \<open>xs[0]\<close> on an empty list\<close>
  | AttributeError
      \<comment> \<open>an attribute read on an object without it: \<open>_flat_target_list\<close> on something
          that is not a collection, \<open>unique_basename\<close> on a tuple\<close>
  | External string
      \<comment> \<open>anything raised by a collaborator outside this file (hooks, backends, storage)\<close>

subsection \<open>Python string operations used by the key functions\<close>

text \<open>\<open>str.isspace\<close> on the code points below 256.\<close>

definition is_space :: "char \<Rightarrow> bool" where
  "is_space c = (of_char c \<in> {9::nat, 10, 11, 12, 13, 28, 29, 30, 31, 32, 133, 160})"

text \<open>\<open>s.strip()\<close>\<close>

definition strip :: "string \<Rightarrow> string" where
  "strip s = rev (dropWhile is_space (rev (dropWhile is_space s)))"

text \<open>A string with a character that is not whitespace: \<open>bool(s.strip())\<close>.\<close>

definition nonblank :: "string \<Rightarrow> bool" where
  "nonblank p = list_ex (\<lambda>c. \<not> is_space c) p"

text \<open>
  The first occurrence of \<open>d\<close> in \<open>s\<close>: the text before it and the text after it
  (\<open>s.partition(d)\<close> without the separator), \<open>None\<close> when \<open>d\<close> does not occur.
\<close>

fun find_first :: "string \<Rightarrow> string \<Rightarrow> (string \<times> string) option" where
  "find_first d [] = (if d = [] then Some ([], []) else None)"
| "find_first d (c # cs) =
     (if prefix d (c # cs) then Some ([], drop (length d) (c # cs))
      else (case find_first d cs of
              None \<Rightarrow> None
            | Some (a, b) \<Rightarrow> Some (c # a, b)))"

text \<open>\<open>s.split(d, 1)\<close> for a non-empty separator \<open>d\<close>\<close>

definition split1 :: "string \<Rightarrow> string \<Rightarrow> string list" where
  "split1 s d = (case find_first d s of None \<Rightarrow> [s] | Some (a, b) \<Rightarrow> [a, b])"

text \<open>\<open>s.split(c)\<close> for a one-character separator: never the empty list\<close>

fun split_char :: "char \<Rightarrow> string \<Rightarrow> string list" where
  "split_char c [] = [[]]"
| "split_char c (x # xs) =
     (if x = c then [] # split_char c xs
      else (case split_char c xs of
              [] \<Rightarrow> [[x]]
            | y # ys \<Rightarrow> (x # y) # ys))"

subsection \<open>Sandbox keys: \<open>Sandbox.check_key\<close>, \<open>split_key\<close>, \<open>remove_type\<close>, \<open>join_key\<close>\<close>

definition delimiter :: string where
  "delimiter = ''::''"

text \<open>
  \<open>check_key(key, silent)\<close>: only the comma is looked at. With \<open>silent\<close> the
  refusal is the value \<open>False\<close>, otherwise a \<open>ValueError\<close>.
\<close>

definition check_key :: "string \<Rightarrow> bool \<Rightarrow> error + bool" where
  "check_key key silent =
     (if CHR '','' \<in> set key then
        (if silent then Inr False else Inl (FormatError key))
      else Inr True)"

definition split_key :: "string \<Rightarrow> error + (string \<times> string)" where
  "split_key key =
     (let parts = split1 key delimiter in
      if length parts \<noteq> 2 \<or> list_ex (\<lambda>p. strip p = []) parts then Inl (FormatError key)
      else (case parts of
              [t, n] \<Rightarrow> Inr (t, n)
            | _ \<Rightarrow> Inl (FormatError key)))"

definition join_key :: "string \<Rightarrow> string \<Rightarrow> string" where
  "join_key type name = type @ delimiter @ name"

text \<open>\<open>remove_type\<close>: the last element of \<open>key.split(delimiter, 1)\<close>, after \<open>check_key\<close>\<close>

definition remove_type :: "string \<Rightarrow> error + string" where
  "remove_type key =
     (case check_key key False of
        Inl e \<Rightarrow> Inl e
      | Inr _ \<Rightarrow> Inr (last (split1 key delimiter)))"

text \<open>
  The two checks \<open>Sandbox.new\<close> applies to a key before it looks for a backend:
  \<open>check_key(key, silent=False)\<close>, then \<open>split_key(key)\<close>.
\<close>

definition new_key :: "string \<Rightarrow> error + (string \<times> string)" where
  "new_key key =
     (case check_key key False of
        Inl e \<Rightarrow> Inl e
      | Inr _ \<Rightarrow> split_key key)"

subsection \<open>The environment cache: \<open>Sandbox._envs\<close> and the property \<open>Sandbox.env\<close>\<close>

type_synonym env_map = "(string \<times> string) list"

type_synonym cache_key = "string \<times> string"

text \<open>A sandbox instance: the class attribute \<open>sandbox_type\<close> and \<open>self.name\<close>.\<close>

record sandbox =
  sandbox_type :: string
  sandbox_name :: string

text \<open>
  The abstract members a backend supplies, as they evaluate at the moment of one access:
  the property \<open>env_cache_key\<close> and what a call of \<open>create_env()\<close> would return
  (\<open>Inr\<close>) or raise (\<open>Inl\<close>). The backend is given anew at every access, so a
  resolver may fail once and succeed later.
\<close>

record backend =
  env_cache_key :: string
  create_env :: "error + env_map"

text \<open>
  Process-wide state: the class-level dictionary \<open>_envs\<close>, and a log with one entry
  for every call of \<open>create_env\<close>, kept to count the calls.
\<close>

record globals =
  envs :: "cache_key \<rightharpoonup> env_map"
  create_env_calls :: "cache_key list"

definition process_start :: globals where
  "process_start = \<lparr>envs = Map.empty, create_env_calls = []\<rparr>"

text \<open>
  \<open>Sandbox.env\<close>. When \<open>create_env()\<close> raises, the assignment to
  \<open>_envs[cache_key]\<close> is never reached.
\<close>

definition env :: "sandbox \<Rightarrow> backend \<Rightarrow> 'a globals_scheme \<Rightarrow> (error + env_map) \<times> 'a globals_scheme" where
  "env sb be g =
     (let cache_key = (sandbox_type sb, env_cache_key be) in
      case envs g cache_key of
        None \<Rightarrow>
          (case create_env be of
             Inl e \<Rightarrow> (Inl e, g\<lparr>create_env_calls := create_env_calls g @ [cache_key]\<rparr>)
           | Inr v \<Rightarrow>
               (Inr v, g\<lparr>envs := (envs g)(cache_key \<mapsto> v),
                          create_env_calls := create_env_calls g @ [cache_key]\<rparr>))
      | Some v \<Rightarrow> (Inr v, g))"

text \<open>Any number of accesses, one after the other, over the life of the process.\<close>

fun env_accesses ::
  "(sandbox \<times> backend) list \<Rightarrow> 'a globals_scheme \<Rightarrow> (error + env_map) list \<times> 'a globals_scheme" where
  "env_accesses [] g = ([], g)"
| "env_accesses ((sb, be) # rest) g =
     (case env sb be g of
        (r, g1) \<Rightarrow> (case env_accesses rest g1 of (rs, g2) \<Rightarrow> (r # rs, g2)))"

definition key_of :: "sandbox \<times> backend \<Rightarrow> cache_key" where
  "key_of a = (sandbox_type (fst a), env_cache_key (snd a))"

text \<open>Every key was resolved once if it is cached, and never otherwise.\<close>

definition resolved_once :: "'a globals_scheme \<Rightarrow> bool" where
  "resolved_once g =
     (\<forall>k. count_list (create_env_calls g) k = (if envs g k = None then 0 else 1))"

text \<open>A sandbox and two backends for the examples.\<close>

definition docker_slc7 :: sandbox where
  "docker_slc7 = \<lparr>sandbox_type = ''docker'', sandbox_name = ''slc7''\<rparr>"

definition resolving :: backend where
  "resolving = \<lparr>env_cache_key = ''image'', create_env = Inr [(''PATH'', ''/bin'')]\<rparr>"

definition raising :: backend where
  "raising = \<lparr>env_cache_key = ''image'', create_env = Inl (External ''no such image'')\<rparr>"

subsection \<open>Target structures\<close>

text \<open>
  A leaf target as this file uses it: its \<open>path\<close>, its \<open>unique_basename\<close> and its
  \<open>type\<close> (\<open>"f"\<close> or \<open>"d"\<close>). The class of targets and the way
  \<open>unique_basename\<close> is computed belong to the storage layer (\<open>law.target\<close>), which
  is not part of this file: the attribute is taken as given.
\<close>

record target =
  path :: string
  unique_basename :: string
  target_type :: string

text \<open>A local target below a staging directory, as \<open>stage_dir.child(...)\<close> returns it.\<close>

record local_target =
  local_path :: string
  local_type :: string

text \<open>
  Nested structures of targets: a leaf, a dict (in insertion order), a list, a tuple,
  or a \<open>TargetCollection\<close> wrapping the structure \<open>collection.targets\<close>.
\<close>

datatype 'a struct =
    Leaf 'a
  | Mapping "(string \<times> 'a struct) list"
  | Sequence "'a struct list"
  | Tuple "'a struct list"
  | Collection "'a struct"
  for map: struct_map

text \<open>
  What a flattened list holds: a target, or a collection object as a whole
  (\<open>isinstance(x, TargetCollection)\<close> tells the two apart).
\<close>

datatype 'a item = Target 'a | Coll "'a struct"

text \<open>
  Modelled from the spec: \<open>law.util.flatten\<close> is not part of this file. It lists the
  values of dicts and the members of lists and tuples, depth first and in order, and
  keeps every other object, a collection included, as one element; hence the special
  case in the staging loops.
\<close>

fun flatten :: "'a struct \<Rightarrow> 'a item list" where
  "flatten (Leaf t) = [Target t]"
| "flatten (Mapping kvs) = concat (map (\<lambda>kv. flatten (snd kv)) kvs)"
| "flatten (Sequence xs) = concat (map flatten xs)"
| "flatten (Tuple xs) = concat (map flatten xs)"
| "flatten (Collection s) = [Coll s]"

text \<open>\<open>collection._flat_target_list\<close>, which the constructor sets to \<open>flatten(targets)\<close>\<close>

definition flat_target_list :: "'a struct \<Rightarrow> 'a item list" where
  "flat_target_list targets = flatten targets"

text \<open>The results of a loop over a list, up to the first element that raises.\<close>

fun collect :: "(error + 'a) list \<Rightarrow> error + 'a list" where
  "collect [] = Inr []"
| "collect (r # rs) =
     (case r of
        Inl e \<Rightarrow> Inl e
      | Inr x \<Rightarrow> (case collect rs of Inl e \<Rightarrow> Inl e | Inr xs \<Rightarrow> Inr (x # xs)))"

text \<open>
  Modelled from the spec: \<open>law.util.map_struct\<close> is not part of this file. It maps the
  values of a dict and the members of a list and keeps the nesting, and it hands every
  other object to \<open>func\<close>. Called as it is here, without \<open>map_tuple\<close>, it does not
  enter a tuple: the tuple as a whole is handed to \<open>func\<close>. A \<open>TargetCollection\<close>
  goes through the custom mapping \<open>map_collection\<close> of
  \<open>create_staged_target_struct\<close>, which maps \<open>collection.targets\<close> with the same
  arguments and builds a collection of the same class around the result. An exception
  of \<open>func\<close> ends the mapping.
\<close>

fun map_struct :: "('a struct \<Rightarrow> error + 'b struct) \<Rightarrow> 'a struct \<Rightarrow> error + 'b struct" where
  "map_struct func (Leaf t) = func (Leaf t)"
| "map_struct func (Tuple xs) = func (Tuple xs)"
| "map_struct func (Mapping kvs) =
     (case collect (map (\<lambda>kv. case map_struct func (snd kv) of
                                 Inl e \<Rightarrow> Inl e
                               | Inr v \<Rightarrow> Inr (fst kv, v)) kvs) of
        Inl e \<Rightarrow> Inl e
      | Inr staged \<Rightarrow> Inr (Mapping staged))"
| "map_struct func (Sequence xs) =
     (case collect (map (map_struct func) xs) of
        Inl e \<Rightarrow> Inl e
      | Inr staged \<Rightarrow> Inr (Sequence staged))"
| "map_struct func (Collection s) =
     (case map_struct func s of
        Inl e \<Rightarrow> Inl e
      | Inr staged \<Rightarrow> Inr (Collection staged))"

text \<open>
  The first argument of \<open>create_staged_target\<close>: a \<open>LocalDirectoryTarget\<close>, given
  by its path, or anything else (the path string of \<open>_staged_input\<close> and
  \<open>_staged_output\<close>), given by what the constructor \<open>LocalDirectoryTarget(stage_dir)\<close>
  makes of it: the path of the directory target, or the error it raises. The
  constructor is not part of this file and is taken as given.
\<close>

datatype stage_dir_arg = DirTarget string | DirPath "error + string"

text \<open>Lines 694 and 695: the directory target in use, by its path.\<close>

definition stage_dir_path :: "stage_dir_arg \<Rightarrow> error + string" where
  "stage_dir_path stage_dir =
     (case stage_dir of DirTarget d \<Rightarrow> Inr d | DirPath converted \<Rightarrow> converted)"

text \<open>
  Modelled from the spec: \<open>LocalDirectoryTarget.child\<close> is not part of this file. The
  child of a directory is the local target at \<open>directory/name\<close>, of the type asked
  for: the path of a directory target is the one its constructor has normalised and
  ends with no separator, and the name is joined to it with one.
  \<open>create_staged_target\<close> asks for the \<open>unique_basename\<close> and the type of the
  original.
\<close>

definition child_path :: "string \<Rightarrow> string \<Rightarrow> string" where
  "child_path dir name = dir @ ''/'' @ name"

definition staged_leaf :: "string \<Rightarrow> target \<Rightarrow> local_target" where
  "staged_leaf dir t =
     \<lparr>local_path = child_path dir (unique_basename t), local_type = target_type t\<rparr>"

text \<open>
  \<open>create_staged_target(stage_dir, target)\<close>. What \<open>map_struct\<close> hands over is a
  target or, for a tuple, an object without \<open>unique_basename\<close>: reading the
  attribute raises \<open>AttributeError\<close>.
\<close>

definition create_staged_target :: "stage_dir_arg \<Rightarrow> target struct \<Rightarrow> error + local_target" where
  "create_staged_target stage_dir target =
     (case stage_dir_path stage_dir of
        Inl e \<Rightarrow> Inl e
      | Inr d \<Rightarrow>
          (case target of
             Leaf t \<Rightarrow> Inr (staged_leaf d t)
           | _ \<Rightarrow> Inl AttributeError))"

definition create_staged_target_struct ::
  "stage_dir_arg \<Rightarrow> target struct \<Rightarrow> error + local_target struct" where
  "create_staged_target_struct stage_dir struct =
     map_struct
       (\<lambda>target. case create_staged_target stage_dir target of
                    Inl e \<Rightarrow> Inl e
                  | Inr staged \<Rightarrow> Inr (Leaf staged))
       struct"

text \<open>A structure without a tuple, also inside its collections.\<close>

fun tuple_free :: "'a struct \<Rightarrow> bool" where
  "tuple_free (Leaf t) = True"
| "tuple_free (Mapping kvs) = list_all (\<lambda>kv. tuple_free (snd kv)) kvs"
| "tuple_free (Sequence xs) = list_all tuple_free xs"
| "tuple_free (Tuple xs) = False"
| "tuple_free (Collection s) = tuple_free s"

text \<open>All leaves of a structure, the members of collections included, in traversal order.\<close>

fun leaves :: "'a struct \<Rightarrow> 'a list" where
  "leaves (Leaf t) = [t]"
| "leaves (Mapping kvs) = concat (map (\<lambda>kv. leaves (snd kv)) kvs)"
| "leaves (Sequence xs) = concat (map leaves xs)"
| "leaves (Tuple xs) = concat (map leaves xs)"
| "leaves (Collection s) = leaves s"

fun item_leaves :: "'a item \<Rightarrow> 'a list" where
  "item_leaves (Target t) = [t]"
| "item_leaves (Coll s) = leaves s"

text \<open>Sizes that bound the work left in a traversal queue.\<close>

fun struct_weight :: "'a struct \<Rightarrow> nat" where
  "struct_weight (Leaf t) = 1"
| "struct_weight (Mapping kvs) = Suc (sum_list (map (\<lambda>kv. struct_weight (snd kv)) kvs))"
| "struct_weight (Sequence xs) = Suc (sum_list (map struct_weight xs))"
| "struct_weight (Tuple xs) = Suc (sum_list (map struct_weight xs))"
| "struct_weight (Collection s) = Suc (Suc (struct_weight s))"

fun item_weight :: "'a item \<Rightarrow> nat" where
  "item_weight (Target t) = 1"
| "item_weight (Coll s) = Suc (struct_weight s)"

definition queue_weight :: "'a item list \<Rightarrow> nat" where
  "queue_weight q = sum_list (map item_weight q)"

lemma queue_weight_append: "queue_weight (xs @ ys) = queue_weight xs + queue_weight ys"
  by (simp add: queue_weight_def)

lemma queue_weight_concat:
  "(\<And>x. x \<in> set xs \<Longrightarrow> queue_weight (f x) \<le> g x) \<Longrightarrow>
   queue_weight (concat (map f xs)) \<le> sum_list (map g xs)"
  by (induction xs) (auto simp: queue_weight_append queue_weight_def add_mono)

lemma queue_weight_flatten: "queue_weight (flatten s) \<le> struct_weight s"
proof (induction s)
  case (Leaf t)
  show ?case by (simp add: queue_weight_def)
next
  case (Mapping kvs)
  have "queue_weight (concat (map (\<lambda>kv. flatten (snd kv)) kvs))
        \<le> sum_list (map (\<lambda>kv. struct_weight (snd kv)) kvs)"
  proof (rule queue_weight_concat)
    fix kv assume "kv \<in> set kvs"
    moreover have "snd kv \<in> Basic_BNFs.snds kv"
      by (cases kv) simp
    ultimately show "queue_weight (flatten (snd kv)) \<le> struct_weight (snd kv)"
      using Mapping.IH by blast
  qed
  then show ?case by simp
next
  case (Sequence xs)
  have "queue_weight (concat (map flatten xs)) \<le> sum_list (map struct_weight xs)"
    by (rule queue_weight_concat) (rule Sequence.IH)
  then show ?case by simp
next
  case (Tuple xs)
  have "queue_weight (concat (map flatten xs)) \<le> sum_list (map struct_weight xs)"
    by (rule queue_weight_concat) (rule Tuple.IH)
  then show ?case by simp
next
  case (Collection s)
  show ?case by (simp add: queue_weight_def)
qed

subsection \<open>The world a proxy run acts on\<close>

text \<open>Files by path, with their content.\<close>

type_synonym files = "string \<rightharpoonup> string"

text \<open>
  Modelled from the spec: the storage layer (\<open>law.target\<close>) is not part of this file.
  A leaf offers an existence check, a copy to a local target and a copy from a local
  target; a copy whose source does not exist raises.
\<close>

definition local_exists :: "local_target \<Rightarrow> files \<Rightarrow> bool" where
  "local_exists l fs = (fs (local_path l) \<noteq> None)"

definition copy_to_local :: "target \<Rightarrow> local_target \<Rightarrow> files \<Rightarrow> error + files" where
  "copy_to_local t l fs =
     (case fs (path t) of
        None \<Rightarrow> Inl (External ''copy_to_local: no such file'')
      | Some content \<Rightarrow> Inr (fs(local_path l \<mapsto> content)))"

definition copy_from_local :: "target \<Rightarrow> local_target \<Rightarrow> files \<Rightarrow> error + files" where
  "copy_from_local t l fs =
     (case fs (local_path l) of
        None \<Rightarrow> Inl (External ''copy_from_local: no such file'')
      | Some content \<Rightarrow> Inr (fs(path t \<mapsto> content)))"

record stage_info =
  targets :: "target struct"
  stage_dir :: string
  staged_targets :: "local_target struct"

text \<open>
  What a run does that can be observed: hooks called, copies made, the banners of
  \<open>_run_context\<close>, the subprocess and its exit code, the warning of \<open>stageout\<close>,
  the numbers of files that \<open>stagein\<close> and \<open>stageout\<close> log at their end.
  \<open>StageOut\<close> marks the entry into \<open>stageout\<close>.
\<close>

datatype event =
    BeforeRun
  | StageInCopy string string
  | StagedIn nat
  | EnterSandbox
  | Subprocess string
  | Exit int
  | LeaveSandbox
  | StageOut
  | StageOutCopy string string
  | StageOutWarning string
  | StagedOut nat
  | AfterRun

record world = globals +
  files :: files
  events :: "event list"
  stagein_info :: "stage_info option"
  stageout_info :: "stage_info option"

definition emit :: "event \<Rightarrow> world \<Rightarrow> world" where
  "emit e w = w\<lparr>events := events w @ [e]\<rparr>"

subsection \<open>The copy loops of \<open>SandboxProxy.stagein\<close> and \<open>SandboxProxy.stageout\<close>\<close>

text \<open>
  Both loops pop the heads of two queues in lockstep. A collection at the head is
  replaced by its \<open>_flat_target_list\<close> in both queues; anything else is copied.
\<close>

function (sequential) stagein_copy ::
  "target item list \<Rightarrow> local_target item list \<Rightarrow> world \<Rightarrow> (error + unit) \<times> world" where
  "stagein_copy [] staged w = (Inr (), w)"
| "stagein_copy (x # xs) [] w = (Inl IndexError, w)"
| "stagein_copy (Coll c # xs) (Coll d # ys) w =
     stagein_copy (flat_target_list c @ xs) (flat_target_list d @ ys) w"
| "stagein_copy (Coll c # xs) (Target l # ys) w = (Inl AttributeError, w)"
| "stagein_copy (Target t # xs) (Coll d # ys) w = (Inl AttributeError, w)"
| "stagein_copy (Target t # xs) (Target l # ys) w =
     (case copy_to_local t l (files w) of
        Inl e \<Rightarrow> (Inl e, w)
      | Inr fs \<Rightarrow> stagein_copy xs ys (emit (StageInCopy (path t) (local_path l)) (w\<lparr>files := fs\<rparr>)))"
  by pat_completeness auto
termination
proof (relation "measure (\<lambda>(q, staged, w). queue_weight q)")
  show "wf (measure (\<lambda>(q, staged, w). queue_weight q))" by simp
next
  fix c :: "target struct" and xs d ys w
  show "((flat_target_list c @ xs, flat_target_list d @ ys, w), (Coll c # xs, Coll d # ys, w))
        \<in> measure (\<lambda>(q, staged, w). queue_weight q)"
    using queue_weight_flatten[of c]
    by (simp add: queue_weight_append flat_target_list_def) (simp add: queue_weight_def)
next
  fix t xs l ys w fs
  show "((xs, ys, emit (StageInCopy (path t) (local_path l)) (w\<lparr>files := fs\<rparr>)),
         (Target t # xs, Target l # ys, w)) \<in> measure (\<lambda>(q, staged, w). queue_weight q)"
    by (simp add: queue_weight_def)
qed

function (sequential) stageout_copy ::
  "target item list \<Rightarrow> local_target item list \<Rightarrow> world \<Rightarrow> (error + unit) \<times> world" where
  "stageout_copy [] staged w = (Inr (), w)"
| "stageout_copy (x # xs) [] w = (Inl IndexError, w)"
| "stageout_copy (Coll c # xs) (Coll d # ys) w =
     stageout_copy (flat_target_list c @ xs) (flat_target_list d @ ys) w"
| "stageout_copy (Coll c # xs) (Target l # ys) w = (Inl AttributeError, w)"
| "stageout_copy (Target t # xs) (Coll d # ys) w = (Inl AttributeError, w)"
| "stageout_copy (Target t # xs) (Target l # ys) w =
     (if local_exists l (files w) then
        (case copy_from_local t l (files w) of
           Inl e \<Rightarrow> (Inl e, w)
         | Inr fs \<Rightarrow>
             stageout_copy xs ys (emit (StageOutCopy (local_path l) (path t)) (w\<lparr>files := fs\<rparr>)))
      else stageout_copy xs ys (emit (StageOutWarning (local_path l)) w))"
  by pat_completeness auto
termination
proof (relation "measure (\<lambda>(q, staged, w). queue_weight q)")
  show "wf (measure (\<lambda>(q, staged, w). queue_weight q))" by simp
next
  fix c :: "target struct" and xs d ys w
  show "((flat_target_list c @ xs, flat_target_list d @ ys, w), (Coll c # xs, Coll d # ys, w))
        \<in> measure (\<lambda>(q, staged, w). queue_weight q)"
    using queue_weight_flatten[of c]
    by (simp add: queue_weight_append flat_target_list_def) (simp add: queue_weight_def)
next
  fix t xs l ys w fs
  show "((xs, ys, emit (StageOutCopy (local_path l) (path t)) (w\<lparr>files := fs\<rparr>)),
         (Target t # xs, Target l # ys, w)) \<in> measure (\<lambda>(q, staged, w). queue_weight q)"
    by (simp add: queue_weight_def)
next
  fix t xs l ys w
  show "((xs, ys, emit (StageOutWarning (local_path l)) w), (Target t # xs, Target l # ys, w))
        \<in> measure (\<lambda>(q, staged, w). queue_weight q)"
    by (simp add: queue_weight_def)
qed

subsection \<open>The staging loops, said over the list of all leaves\<close>

text \<open>The staged counterpart of an element of a flattened list.\<close>

fun map_item :: "('a \<Rightarrow> 'b) \<Rightarrow> 'a item \<Rightarrow> 'b item" where
  "map_item func (Target t) = Target (func t)"
| "map_item func (Coll s) = Coll (struct_map func s)"

text \<open>
  What the spec asks of \<open>copy_in\<close> and \<open>copy_out\<close>: one step for every leaf, the
  members of collections included, in order. These two functions follow the spec; the
  loops above follow the source.
\<close>

fun copy_in_leaves :: "(target \<Rightarrow> local_target) \<Rightarrow> target list \<Rightarrow> world \<Rightarrow> (error + unit) \<times> world" where
  "copy_in_leaves staged [] w = (Inr (), w)"
| "copy_in_leaves staged (t # ts) w =
     (case copy_to_local t (staged t) (files w) of
        Inl e \<Rightarrow> (Inl e, w)
      | Inr fs \<Rightarrow>
          copy_in_leaves staged ts
            (emit (StageInCopy (path t) (local_path (staged t))) (w\<lparr>files := fs\<rparr>)))"

fun copy_out_leaves :: "(target \<Rightarrow> local_target) \<Rightarrow> target list \<Rightarrow> world \<Rightarrow> (error + unit) \<times> world" where
  "copy_out_leaves staged [] w = (Inr (), w)"
| "copy_out_leaves staged (t # ts) w =
     (if local_exists (staged t) (files w) then
        (case copy_from_local t (staged t) (files w) of
           Inl e \<Rightarrow> (Inl e, w)
         | Inr fs \<Rightarrow>
             copy_out_leaves staged ts
               (emit (StageOutCopy (local_path (staged t)) (path t)) (w\<lparr>files := fs\<rparr>)))
      else copy_out_leaves staged ts (emit (StageOutWarning (local_path (staged t))) w))"

text \<open>Counting events.\<close>

fun is_stagein_copy :: "event \<Rightarrow> bool" where
  "is_stagein_copy (StageInCopy src dst) = True"
| "is_stagein_copy e = False"

fun is_stageout_copy :: "event \<Rightarrow> bool" where
  "is_stageout_copy (StageOutCopy src dst) = True"
| "is_stageout_copy e = False"

fun is_warning :: "event \<Rightarrow> bool" where
  "is_warning (StageOutWarning p) = True"
| "is_warning e = False"

subsection \<open>\<open>SandboxProxy\<close>: one sandboxed run\<close>

text \<open>
  What the task, the configuration and the storage layer supply to one run. A hook is
  \<open>None\<close> when the attribute is not callable, and may raise. \<open>sandbox_stagein\<close>
  and \<open>sandbox_stageout\<close> are the truth values of the masks. \<open>sandbox_inputs\<close> is
  \<open>mask_struct(mask, task.input())\<close> with \<open>task.input()\<close> computed while
  \<open>os.environ\<close> is patched with the given environment, \<open>None\<close> when the masked
  value is falsy; \<open>sandbox_outputs\<close> likewise for \<open>task.output()\<close>.
  \<open>sandbox_cmd\<close> is \<open>sandbox_inst.cmd(create_proxy_cmd())\<close> and \<open>popen\<close> is
  \<open>interruptable_popen\<close>: given the command and the environment it changes files
  and returns the exit code, or raises. \<open>listdir\<close> is the listing of a staging
  directory that the log messages at the end of \<open>stagein\<close> and \<open>stageout\<close>
  count; the directory is one the run has created itself, and the listing is taken to
  return.
\<close>

record proxy_task =
  sandbox_before_run :: "(files \<Rightarrow> error + files) option"
  sandbox_after_run :: "(files \<Rightarrow> error + files) option"
  stagein_dir_name :: string
  stageout_dir_name :: string
  sandbox_stagein :: bool
  sandbox_stageout :: bool
  sandbox_inputs :: "env_map \<Rightarrow> target struct option"
  sandbox_outputs :: "env_map \<Rightarrow> target struct option"
  sandbox_cmd :: "error + string"
  popen :: "string \<Rightarrow> env_map \<Rightarrow> files \<Rightarrow> (error + int) \<times> files"
  listdir :: "string \<Rightarrow> files \<Rightarrow> string list"

text \<open>\<open>Sandbox.key\<close>\<close>

definition key :: "sandbox \<Rightarrow> string" where
  "key sb = join_key (sandbox_type sb) (sandbox_name sb)"

text \<open>\<open>if callable(hook): hook()\<close>\<close>

definition call_hook ::
  "(files \<Rightarrow> error + files) option \<Rightarrow> event \<Rightarrow> world \<Rightarrow> (error + unit) \<times> world" where
  "call_hook hook ev w =
     (case hook of
        None \<Rightarrow> (Inr (), w)
      | Some h \<Rightarrow>
          (case h (files w) of
             Inl e \<Rightarrow> (Inl e, emit ev w)
           | Inr fs \<Rightarrow> (Inr (), emit ev (w\<lparr>files := fs\<rparr>))))"

text \<open>
  \<open>SandboxProxy.stagein\<close>. A proxy exists only on a task that holds a sandbox
  instance (\<open>_initialize_sandbox\<close> sets the two together), so \<open>is_sandboxed\<close>
  is false there and the \<open>self.task.env\<close> of line 385 is \<open>sandbox_inst.env\<close>:
  it is read after the checks of the directory name and the mask, and it resolves the
  environment, with the cache, before the inputs are looked at. \<open>child\<close> and
  \<open>touch\<close> on the fresh temporary directory are taken to return.
\<close>

definition stagein ::
  "sandbox \<Rightarrow> backend \<Rightarrow> proxy_task \<Rightarrow> string \<Rightarrow> world \<Rightarrow> (error + stage_info option) \<times> world" where
  "stagein sb be p tmp_dir w =
     (if stagein_dir_name p = [] then (Inr None, w)
      else if \<not> sandbox_stagein p then (Inr None, w)
      else (case env sb be w of
              (Inl e, w1) \<Rightarrow> (Inl e, w1)
            | (Inr environ, w1) \<Rightarrow>
                (case sandbox_inputs p environ of
                   None \<Rightarrow> (Inr None, w1)
                 | Some inputs \<Rightarrow>
                     (let stagein_dir = child_path tmp_dir (stagein_dir_name p)
                      in case create_staged_target_struct (DirTarget stagein_dir) inputs of
                           Inl e \<Rightarrow> (Inl e, w1)
                         | Inr staged_inputs \<Rightarrow>
                             (case stagein_copy (flatten inputs) (flatten staged_inputs) w1 of
                                (Inl e, w2) \<Rightarrow> (Inl e, w2)
                              | (Inr _, w2) \<Rightarrow>
                                  (Inr (Some \<lparr>targets = inputs, stage_dir = stagein_dir,
                                              staged_targets = staged_inputs\<rparr>),
                                   emit (StagedIn (length (listdir p stagein_dir (files w2)))) w2))))))"

text \<open>\<open>SandboxProxy.prepare_stageout\<close>, with the \<open>self.task.env\<close> of line 433.\<close>

definition prepare_stageout ::
  "sandbox \<Rightarrow> backend \<Rightarrow> proxy_task \<Rightarrow> string \<Rightarrow> world \<Rightarrow> (error + stage_info option) \<times> world" where
  "prepare_stageout sb be p tmp_dir w =
     (if stageout_dir_name p = [] then (Inr None, w)
      else if \<not> sandbox_stageout p then (Inr None, w)
      else (case env sb be w of
              (Inl e, w1) \<Rightarrow> (Inl e, w1)
            | (Inr environ, w1) \<Rightarrow>
                (case sandbox_outputs p environ of
                   None \<Rightarrow> (Inr None, w1)
                 | Some outputs \<Rightarrow>
                     (let stageout_dir = child_path tmp_dir (stageout_dir_name p)
                      in case create_staged_target_struct (DirTarget stageout_dir) outputs of
                           Inl e \<Rightarrow> (Inl e, w1)
                         | Inr staged_outputs \<Rightarrow>
                             (Inr (Some \<lparr>targets = outputs, stage_dir = stageout_dir,
                                         staged_targets = staged_outputs\<rparr>), w1)))))"

text \<open>\<open>SandboxProxy.stageout\<close>\<close>

definition stageout :: "proxy_task \<Rightarrow> stage_info \<Rightarrow> world \<Rightarrow> (error + unit) \<times> world" where
  "stageout p info w =
     (case stageout_copy (flatten (targets info)) (flatten (staged_targets info))
             (emit StageOut w) of
        (Inl e, w1) \<Rightarrow> (Inl e, w1)
      | (Inr _, w1) \<Rightarrow>
          (Inr (), emit (StagedOut (length (listdir p (stage_dir info) (files w1)))) w1))"

text \<open>
  The body of \<open>with self._run_context(cmd)\<close>: the banner on entry, \<open>Sandbox.run\<close>
  (which reads \<open>self.env\<close> and starts the subprocess), the check of the exit code,
  and the banner of the \<open>finally\<close> clause on every way out.
\<close>

definition run_in_context ::
  "sandbox \<Rightarrow> backend \<Rightarrow> proxy_task \<Rightarrow> string \<Rightarrow> world \<Rightarrow> (error + unit) \<times> world" where
  "run_in_context sb be p cmd w =
     (case env sb be (emit EnterSandbox w) of
        (Inl e, w1) \<Rightarrow> (Inl e, emit LeaveSandbox w1)
      | (Inr ev, w1) \<Rightarrow>
          (case popen p cmd ev (files w1) of
             (Inl e, fs) \<Rightarrow> (Inl e, emit LeaveSandbox (emit (Subprocess cmd) (w1\<lparr>files := fs\<rparr>)))
           | (Inr code, fs) \<Rightarrow>
               (let w2 = emit (Exit code) (emit (Subprocess cmd) (w1\<lparr>files := fs\<rparr>))
                in if code \<noteq> 0 then (Inl (SandboxRunFailure (key sb) code), emit LeaveSandbox w2)
                   else (Inr (), emit LeaveSandbox w2))))"

text \<open>Everything \<open>run\<close> does before the \<open>with\<close> block: the built command and the stage-out data.\<close>

definition prepare_run ::
  "sandbox \<Rightarrow> backend \<Rightarrow> proxy_task \<Rightarrow> string \<Rightarrow> world
   \<Rightarrow> (error + string \<times> stage_info option) \<times> world" where
  "prepare_run sb be p tmp_dir w =
     (case call_hook (sandbox_before_run p) BeforeRun w of
        (Inl e, w1) \<Rightarrow> (Inl e, w1)
      | (Inr _, w1) \<Rightarrow>
          (case stagein sb be p tmp_dir w1 of
             (Inl e, w2) \<Rightarrow> (Inl e, w2)
           | (Inr si, w2) \<Rightarrow>
               (let w3 = (if si \<noteq> None then w2\<lparr>stagein_info := si\<rparr> else w2)
                in case prepare_stageout sb be p tmp_dir w3 of
                     (Inl e, w4) \<Rightarrow> (Inl e, w4)
                   | (Inr so, w4) \<Rightarrow>
                       (let w5 = (if so \<noteq> None then w4\<lparr>stageout_info := so\<rparr> else w4)
                        in case sandbox_cmd p of
                             Inl e \<Rightarrow> (Inl e, w5)
                           | Inr cmd \<Rightarrow> (Inr (cmd, so), w5)))))"

text \<open>Everything \<open>run\<close> does after the \<open>with\<close> block.\<close>

definition finish_run :: "proxy_task \<Rightarrow> stage_info option \<Rightarrow> world \<Rightarrow> (error + unit) \<times> world" where
  "finish_run p so w =
     (case (case so of None \<Rightarrow> (Inr (), w) | Some info \<Rightarrow> stageout p info w) of
        (Inl e, w1) \<Rightarrow> (Inl e, w1)
      | (Inr _, w1) \<Rightarrow> call_hook (sandbox_after_run p) AfterRun w1)"

text \<open>
  \<open>SandboxProxy.run\<close>; \<open>tmp_dir\<close> is the path of the fresh temporary directory. The
  directory is removed when the temporary target is disposed of, after \<open>run\<close> has
  been left, by code that is not part of this file.
\<close>

definition run ::
  "sandbox \<Rightarrow> backend \<Rightarrow> proxy_task \<Rightarrow> string \<Rightarrow> world \<Rightarrow> (error + unit) \<times> world" where
  "run sb be p tmp_dir w =
     (case prepare_run sb be p tmp_dir w of
        (Inl e, w1) \<Rightarrow> (Inl e, w1)
      | (Inr (cmd, so), w1) \<Rightarrow>
          (case run_in_context sb be p cmd w1 of
             (Inl e, w2) \<Rightarrow> (Inl e, w2)
           | (Inr _, w2) \<Rightarrow> finish_run p so w2))"

text \<open>Four input files and their targets, two of them with the same \<open>unique_basename\<close>.\<close>

definition events_a :: target where
  "events_a = \<lparr>path = ''/store/a/events.root'', unique_basename = ''events.root'', target_type = ''f''\<rparr>"

definition events_b :: target where
  "events_b = \<lparr>path = ''/store/b/events.root'', unique_basename = ''events.root'', target_type = ''f''\<rparr>"

definition hists :: target where
  "hists = \<lparr>path = ''/store/hists.root'', unique_basename = ''1f_hists.root'', target_type = ''f''\<rparr>"

definition config :: target where
  "config = \<lparr>path = ''/store/config.json'', unique_basename = ''2a_config.json'', target_type = ''f''\<rparr>"

definition store :: files where
  "store = [''/store/a/events.root'' \<mapsto> ''A'', ''/store/b/events.root'' \<mapsto> ''B'',
            ''/store/hists.root'' \<mapsto> ''H'', ''/store/config.json'' \<mapsto> ''C'']"

definition fresh_world :: world where
  "fresh_world = \<lparr>envs = Map.empty, create_env_calls = [], files = store, events = [],
                   stagein_info = None, stageout_info = None\<rparr>"

text \<open>A mapping of two keys: a flat collection of three leaves, and one more leaf.\<close>

definition collection_and_leaf :: "target struct" where
  "collection_and_leaf =
     Mapping [(''data'', Collection (Sequence [Leaf events_a, Leaf events_b, Leaf hists])),
              (''config'', Leaf config)]"

definition no_hooks :: proxy_task where
  "no_hooks = \<lparr>sandbox_before_run = None, sandbox_after_run = None,
                stagein_dir_name = ''stagein'', stageout_dir_name = ''stageout'',
                sandbox_stagein = True, sandbox_stageout = False,
                sandbox_inputs = (\<lambda>ev. Some collection_and_leaf),
                sandbox_outputs = (\<lambda>ev. None),
                sandbox_cmd = Inr ''law run'',
                popen = (\<lambda>cmd ev fs. (Inr 0, fs)),
                listdir = (\<lambda>dir fs. [''events.root'', ''1f_hists.root'', ''2a_config.json''])\<rparr>"

text \<open>A task like \<open>no_hooks\<close> whose input is a tuple of two targets.\<close>

definition tuple_inputs :: proxy_task where
  "tuple_inputs = no_hooks\<lparr>sandbox_inputs := (\<lambda>ev. Some (Tuple [Leaf hists, Leaf config]))\<rparr>"

text \<open>
  Two declared outputs, and the world after a run that has written only the first of
  them into the stage-out directory.
\<close>

definition out_hists :: target where
  "out_hists = \<lparr>path = ''/store/out/hists.root'', unique_basename = ''7c_hists.root'', target_type = ''f''\<rparr>"

definition out_log :: target where
  "out_log = \<lparr>path = ''/store/out/log.txt'', unique_basename = ''9d_log.txt'', target_type = ''f''\<rparr>"

definition two_outputs :: proxy_task where
  "two_outputs = \<lparr>sandbox_before_run = None, sandbox_after_run = Some (\<lambda>fs. Inr fs),
                   stagein_dir_name = ''stagein'', stageout_dir_name = ''stageout'',
                   sandbox_stagein = False, sandbox_stageout = True,
                   sandbox_inputs = (\<lambda>ev. None),
                   sandbox_outputs =
                     (\<lambda>ev. Some (Mapping [(''hists'', Leaf out_hists), (''log'', Leaf out_log)])),
                   sandbox_cmd = Inr ''law run'',
                   popen = (\<lambda>cmd ev fs. (Inr 0, fs(''/tmp/law/stageout/7c_hists.root'' \<mapsto> ''H''))),
                   listdir = (\<lambda>dir fs. [''7c_hists.root''])\<rparr>"

definition after_subprocess :: world where
  "after_subprocess = \<lparr>envs = Map.empty, create_env_calls = [],
                        files = [''/tmp/law/stageout/7c_hists.root'' \<mapsto> ''H''],
                        events = [], stagein_info = None, stageout_info = None\<rparr>"

text \<open>The stage-out data of \<open>two_outputs\<close> below \<open>/tmp/law\<close>.\<close>

definition two_outputs_info :: stage_info where
  "two_outputs_info =
     \<lparr>targets = Mapping [(''hists'', Leaf out_hists), (''log'', Leaf out_log)],
      stage_dir = ''/tmp/law/stageout'',
      staged_targets =
        Mapping [(''hists'', Leaf \<lparr>local_path = ''/tmp/law/stageout/7c_hists.root'', local_type = ''f''\<rparr>),
                 (''log'', Leaf \<lparr>local_path = ''/tmp/law/stageout/9d_log.txt'', local_type = ''f''\<rparr>)]\<rparr>"

text \<open>A task like \<open>two_outputs\<close> whose subprocess exits with code 17.\<close>

definition exit_17 :: proxy_task where
  "exit_17 = two_outputs\<lparr>popen := (\<lambda>cmd ev fs. (Inr 17, fs(''/tmp/law/stageout/7c_hists.root'' \<mapsto> ''H'')))\<rparr>"

definition empty_world :: world where
  "empty_world = \<lparr>envs = Map.empty, create_env_calls = [], files = Map.empty, events = [],
                   stagein_info = None, stageout_info = None\<rparr>"

text \<open>The world once the environment of \<open>docker_slc7\<close> is resolved and the stage-out
  data of \<open>two_outputs\<close> are recorded.\<close>

definition prepared_world :: world where
  "prepared_world = \<lparr>envs = [(''docker'', ''image'') \<mapsto> [(''PATH'', ''/bin'')]],
                      create_env_calls = [(''docker'', ''image'')],
                      files = Map.empty, events = [],
                      stagein_info = None, stageout_info = Some two_outputs_info\<rparr>"

text \<open>Events by the phase that logs them.\<close>

fun is_prepare_event :: "event \<Rightarrow> bool" where
  "is_prepare_event BeforeRun = True"
| "is_prepare_event (StageInCopy src dst) = True"
| "is_prepare_event (StagedIn n) = True"
| "is_prepare_event e = False"

fun is_stageout_event :: "event \<Rightarrow> bool" where
  "is_stageout_event StageOut = True"
| "is_stageout_event (StageOutCopy src dst) = True"
| "is_stageout_event (StageOutWarning p) = True"
| "is_stageout_event (StagedOut n) = True"
| "is_stageout_event e = False"

text \<open>
  The run got as far as the subprocess, and the subprocess returned the exit code 0:
  the command was built, the environment was resolved, and \<open>interruptable_popen\<close>
  returned 0.
\<close>

definition exit_code_zero :: "sandbox \<Rightarrow> backend \<Rightarrow> proxy_task \<Rightarrow> string \<Rightarrow> world \<Rightarrow> bool" where
  "exit_code_zero sb be p tmp_dir w =
     (case prepare_run sb be p tmp_dir w of
        (Inl e, w1) \<Rightarrow> False
      | (Inr (cmd, so), w1) \<Rightarrow>
          (case env sb be (emit EnterSandbox w1) of
             (Inl e, w2) \<Rightarrow> False
           | (Inr ev, w2) \<Rightarrow> fst (popen p cmd ev (files w2)) = Inr 0))"

text \<open>
  The run got past stage-out: the \<open>with\<close> block was left without an exception, and
  \<open>stageout\<close>, when there were stage-out data, returned.
\<close>

definition stageout_passed :: "sandbox \<Rightarrow> backend \<Rightarrow> proxy_task \<Rightarrow> string \<Rightarrow> world \<Rightarrow> bool" where
  "stageout_passed sb be p tmp_dir w =
     (case prepare_run sb be p tmp_dir w of
        (Inl e, w1) \<Rightarrow> False
      | (Inr (cmd, so), w1) \<Rightarrow>
          (case run_in_context sb be p cmd w1 of
             (Inl e, w2) \<Rightarrow> False
           | (Inr u, w2) \<Rightarrow>
               (case so of
                  None \<Rightarrow> True
                | Some info \<Rightarrow> fst (stageout p info w2) = Inr ())))"

subsection \<open>\<open>Sandbox.new\<close> and the ambient sandbox\<close>

text \<open>
  A subclass of \<open>Sandbox\<close>: what \<open>getattr(cls, "sandbox_type", None)\<close> gives, and
  \<open>cls.__subclasses__()\<close>.
\<close>

datatype sandbox_class = SandboxClass "string option" "sandbox_class list"

fun class_weight :: "sandbox_class \<Rightarrow> nat" where
  "class_weight (SandboxClass t subs) = Suc (sum_list (map class_weight subs))"

text \<open>The \<open>while classes\<close> loop of \<open>Sandbox.new\<close>: the first class, breadth first, with the type.\<close>

function find_class :: "string \<Rightarrow> sandbox_class list \<Rightarrow> sandbox_class option" where
  "find_class type [] = None"
| "find_class type (SandboxClass t subs # classes) =
     (if t = Some type then Some (SandboxClass t subs)
      else find_class type (classes @ subs))"
  by pat_completeness auto
termination
  by (relation "measure (\<lambda>(type, classes). sum_list (map class_weight classes))") auto

definition new :: "sandbox_class list \<Rightarrow> string \<Rightarrow> error + sandbox" where
  "new subclasses k =
     (case new_key k of
        Inl e \<Rightarrow> Inl e
      | Inr (type, name) \<Rightarrow>
          (case find_class type subclasses of
             None \<Rightarrow> Inl (UnknownSandboxType type)
           | Some cls \<Rightarrow> Inr \<lparr>sandbox_type = type, sandbox_name = name\<rparr>))"

text \<open>The environment variables read when the module is imported.\<close>

record ambient =
  law_sandbox :: string
  law_sandbox_switched :: string

definition current_sandbox :: "ambient \<Rightarrow> string list" where
  "current_sandbox amb = split_char CHR '','' (law_sandbox amb)"

definition sandbox_switched :: "ambient \<Rightarrow> bool" where
  "sandbox_switched amb = (law_sandbox_switched amb = ''1'')"

definition is_active :: "ambient \<Rightarrow> sandbox \<Rightarrow> bool" where
  "is_active amb sb = (key sb \<in> set (current_sandbox amb))"

subsection \<open>\<open>SandboxTask\<close>: the lazy resolution of the sandbox of a task\<close>

text \<open>
  Modelled from the spec: \<open>law.parameter.NO_STR\<close> is not part of this file. It is the
  value that stands for the empty designation.
\<close>

definition NO_STR :: string where
  "NO_STR = ''NO_STR''"

text \<open>
  The class attribute \<open>sandbox\<close>: a \<open>luigi.Parameter\<close>, whose value on the instance
  is a string, or a hard-coded value.
\<close>

datatype designation = Parameter string | HardCoded "string option"

text \<open>
  \<open>multi_match\<close> is \<open>law.util.multi_match(value, patterns, mode=any)\<close>, which is not
  part of this file and is taken as given.
\<close>

record sandbox_task =
  sandbox :: designation
  valid_sandboxes :: "string list"
  allow_empty_sandbox :: bool
  fallback_sandbox :: "string \<Rightarrow> string option"
  multi_match :: "string \<Rightarrow> string list \<Rightarrow> bool"

datatype proxy = SandboxProxy

record task_state =
  priv_sandbox_initialized :: bool
  priv_effective_sandbox :: "string option"
  priv_sandbox_inst :: "sandbox option"
  priv_sandbox_proxy :: "proxy option"

text \<open>The attributes as \<open>SandboxTask.__init__\<close> sets them.\<close>

definition init_state :: task_state where
  "init_state = \<lparr>priv_sandbox_initialized = False, priv_effective_sandbox = None,
                 priv_sandbox_inst = None, priv_sandbox_proxy = None\<rparr>"

text \<open>The first \<open>if\<close>/\<open>elif\<close>/\<open>else\<close> of \<open>_initialize_sandbox\<close>.\<close>

definition choose_sandbox :: "ambient \<Rightarrow> sandbox_task \<Rightarrow> error + string option" where
  "choose_sandbox amb task =
     (if sandbox_switched amb then
        (case current_sandbox amb of [] \<Rightarrow> Inl IndexError | s # _ \<Rightarrow> Inr (Some s))
      else (case sandbox task of
              Parameter v \<Rightarrow>
                (if multi_match task v (valid_sandboxes task) then Inr (Some v)
                 else Inr (fallback_sandbox task v))
            | HardCoded v \<Rightarrow> Inr v))"

definition initialize_sandbox ::
  "ambient \<Rightarrow> sandbox_class list \<Rightarrow> sandbox_task \<Rightarrow> bool \<Rightarrow> task_state
   \<Rightarrow> (error + unit) \<times> task_state" where
  "initialize_sandbox amb classes task force st =
     (if priv_sandbox_initialized st \<and> \<not> force then (Inr (), st)
      else
        (let st1 = st\<lparr>priv_sandbox_initialized := True, priv_effective_sandbox := None,
                       priv_sandbox_inst := None, priv_sandbox_proxy := None\<rparr>
         in case choose_sandbox amb task of
              Inl e \<Rightarrow> (Inl e, st1)
            | Inr chosen \<Rightarrow>
                (let st2 = st1\<lparr>priv_effective_sandbox := chosen\<rparr>
                 in if chosen = None \<or> chosen = Some NO_STR then
                      (if \<not> allow_empty_sandbox task then (Inl MissingSandboxError, st2)
                       else (Inr (), st2\<lparr>priv_effective_sandbox := Some NO_STR\<rparr>))
                    else
                      (case chosen of
                         None \<Rightarrow> (Inr (), st2)
                       | Some eff \<Rightarrow>
                           (case new classes eff of
                              Inl e \<Rightarrow> (Inl e, st2)
                            | Inr inst \<Rightarrow>
                                (if \<not> is_active amb inst
                                 then (Inr (), st2\<lparr>priv_sandbox_inst := Some inst,
                                                    priv_sandbox_proxy := Some SandboxProxy\<rparr>)
                                 else (Inr (), st2)))))))"

text \<open>The properties \<open>effective_sandbox\<close>, \<open>sandbox_inst\<close> and \<open>sandbox_proxy\<close>.\<close>

definition effective_sandbox ::
  "ambient \<Rightarrow> sandbox_class list \<Rightarrow> sandbox_task \<Rightarrow> task_state
   \<Rightarrow> (error + string option) \<times> task_state" where
  "effective_sandbox amb classes task st =
     (case initialize_sandbox amb classes task False st of
        (Inl e, st1) \<Rightarrow> (Inl e, st1)
      | (Inr _, st1) \<Rightarrow> (Inr (priv_effective_sandbox st1), st1))"

definition sandbox_inst ::
  "ambient \<Rightarrow> sandbox_class list \<Rightarrow> sandbox_task \<Rightarrow> task_state
   \<Rightarrow> (error + sandbox option) \<times> task_state" where
  "sandbox_inst amb classes task st =
     (case initialize_sandbox amb classes task False st of
        (Inl e, st1) \<Rightarrow> (Inl e, st1)
      | (Inr _, st1) \<Rightarrow> (Inr (priv_sandbox_inst st1), st1))"

definition sandbox_proxy ::
  "ambient \<Rightarrow> sandbox_class list \<Rightarrow> sandbox_task \<Rightarrow> task_state
   \<Rightarrow> (error + proxy option) \<times> task_state" where
  "sandbox_proxy amb classes task st =
     (case initialize_sandbox amb classes task False st of
        (Inl e, st1) \<Rightarrow> (Inl e, st1)
      | (Inr _, st1) \<Rightarrow> (Inr (priv_sandbox_proxy st1), st1))"

text \<open>\<open>self.effective_sandbox == NO_STR or not self.sandbox_inst\<close>; \<open>or\<close> reads its
  second operand only when the first is false.\<close>

definition is_sandboxed ::
  "ambient \<Rightarrow> sandbox_class list \<Rightarrow> sandbox_task \<Rightarrow> task_state \<Rightarrow> (error + bool) \<times> task_state" where
  "is_sandboxed amb classes task st =
     (case effective_sandbox amb classes task st of
        (Inl e, st1) \<Rightarrow> (Inl e, st1)
      | (Inr eff, st1) \<Rightarrow>
          (if eff = Some NO_STR then (Inr True, st1)
           else (case sandbox_inst amb classes task st1 of
                   (Inl e, st2) \<Rightarrow> (Inl e, st2)
                 | (Inr inst, st2) \<Rightarrow> (Inr (inst = None), st2))))"

text \<open>
  The property \<open>SandboxTask.env\<close>:
  \<open>os.environ if self.is_sandboxed() else self.sandbox_inst.env\<close>.
\<close>

definition task_env ::
  "ambient \<Rightarrow> sandbox_class list \<Rightarrow> sandbox_task \<Rightarrow> backend \<Rightarrow> env_map \<Rightarrow> task_state \<Rightarrow> globals
   \<Rightarrow> (error + env_map) \<times> task_state \<times> globals" where
  "task_env amb classes task be os_environ st g =
     (case is_sandboxed amb classes task st of
        (Inl e, st1) \<Rightarrow> (Inl e, st1, g)
      | (Inr True, st1) \<Rightarrow> (Inr os_environ, st1, g)
      | (Inr False, st1) \<Rightarrow>
          (case sandbox_inst amb classes task st1 of
             (Inl e, st2) \<Rightarrow> (Inl e, st2, g)
           | (Inr None, st2) \<Rightarrow> (Inl AttributeError, st2, g)
           | (Inr (Some sb), st2) \<Rightarrow> (case env sb be g of (r, g1) \<Rightarrow> (r, st2, g1))))"

text \<open>
  Any number of calls of \<open>_initialize_sandbox\<close> on one task, each with its own
  \<open>force\<close>, starting from the attributes \<open>__init__\<close> sets.
\<close>

fun initialize_many ::
  "ambient \<Rightarrow> sandbox_class list \<Rightarrow> sandbox_task \<Rightarrow> bool list \<Rightarrow> task_state \<Rightarrow> task_state" where
  "initialize_many amb classes task [] st = st"
| "initialize_many amb classes task (force # forces) st =
     initialize_many amb classes task forces (snd (initialize_sandbox amb classes task force st))"

text \<open>
  What holds of the attributes at any time: instance and proxy are set together, and
  only for a sandbox that is not active, whose key is the designation chosen.
\<close>

definition proxy_only_outside :: "ambient \<Rightarrow> sandbox_task \<Rightarrow> task_state \<Rightarrow> bool" where
  "proxy_only_outside amb task st =
     (case priv_sandbox_inst st of
        None \<Rightarrow> priv_sandbox_proxy st = None
      | Some sb \<Rightarrow>
          priv_sandbox_proxy st = Some SandboxProxy \<and> \<not> is_active amb sb
          \<and> priv_sandbox_initialized st
          \<and> choose_sandbox amb task = Inr (Some (key sb))
          \<and> priv_effective_sandbox st = Some (key sb) \<and> key sb \<noteq> NO_STR)"

text \<open>A process inside \<open>docker::slc7\<close>, a process outside any sandbox, and a task.\<close>

definition inside_docker :: ambient where
  "inside_docker = \<lparr>law_sandbox = ''docker::slc7'', law_sandbox_switched = ''1''\<rparr>"

definition outside :: ambient where
  "outside = \<lparr>law_sandbox = '''', law_sandbox_switched = ''''\<rparr>"

definition backends :: "sandbox_class list" where
  "backends = [SandboxClass (Some ''bash'') [SandboxClass (Some ''docker'') []],
               SandboxClass (Some ''venv'') []]"

definition docker_task :: sandbox_task where
  "docker_task = \<lparr>sandbox = Parameter ''docker::slc7'', valid_sandboxes = [''*''],
                   allow_empty_sandbox = False, fallback_sandbox = (\<lambda>v. None),
                   multi_match = (\<lambda>v patterns. True)\<rparr>"

text \<open>A process that lists two sandboxes without the switched flag.\<close>

definition listed :: ambient where
  "listed = \<lparr>law_sandbox = ''bash::env,docker::slc7'', law_sandbox_switched = ''''\<rparr>"

section \<open>Properties\<close>

subsection \<open>Strings\<close>

lemma dropWhile_all: "(dropWhile P xs = []) = (\<forall>x\<in>set xs. P x)"
  by (induction xs) auto

lemma strip_empty_iff: "(strip p = []) = (\<not> nonblank p)"
proof -
  have "(strip p = []) = (dropWhile is_space (rev (dropWhile is_space p)) = [])"
    by (simp add: strip_def)
  also have "\<dots> = (\<forall>x\<in>set (dropWhile is_space p). is_space x)"
    by (simp add: dropWhile_all)
  also have "\<dots> = (\<forall>x\<in>set p. is_space x)"
  proof
    assume a: "\<forall>x\<in>set (dropWhile is_space p). is_space x"
    show "\<forall>x\<in>set p. is_space x"
    proof (cases "dropWhile is_space p")
      case Nil
      then show ?thesis by (simp add: dropWhile_all)
    next
      case (Cons y ys)
      then have "\<not> is_space y" using hd_dropWhile[of is_space p] by auto
      moreover have "y \<in> set (dropWhile is_space p)" using Cons by simp
      ultimately show ?thesis using a by blast
    qed
  next
    assume "\<forall>x\<in>set p. is_space x"
    then show "\<forall>x\<in>set (dropWhile is_space p). is_space x"
      using set_dropWhileD by fastforce
  qed
  finally show ?thesis by (auto simp: nonblank_def list_ex_iff)
qed

lemma find_first_Some_decomp:
  "find_first d s = Some (a, b) \<Longrightarrow> s = a @ d @ b"
proof (induction s arbitrary: a)
  case Nil
  then show ?case by (auto split: if_splits)
next
  case (Cons c cs)
  show ?case
  proof (cases "prefix d (c # cs)")
    case True
    with Cons.prems have ab: "a = []" "b = drop (length d) (c # cs)" by auto
    from True obtain r where r: "c # cs = d @ r" by (auto simp: prefix_def)
    show ?thesis unfolding ab r by simp
  next
    case False
    with Cons.prems obtain a' where "find_first d cs = Some (a', b)" "a = c # a'"
      by (auto split: option.splits)
    with Cons.IH show ?thesis by auto
  qed
qed

lemma find_first_first:
  "find_first d s = Some (a, b) \<Longrightarrow> s = u @ d @ v \<Longrightarrow> length a \<le> length u"
proof (induction s arbitrary: a u)
  case Nil
  then show ?case by (auto split: if_splits)
next
  case (Cons c cs)
  show ?case
  proof (cases "prefix d (c # cs)")
    case True
    with Cons.prems(1) have "a = []" by auto
    then show ?thesis by simp
  next
    case False
    with Cons.prems(1) obtain a' where a': "find_first d cs = Some (a', b)" "a = c # a'"
      by (auto split: option.splits)
    from False Cons.prems(2) have "u \<noteq> []" by (auto simp: prefix_def)
    then obtain u' where u': "u = c # u'" "cs = u' @ d @ v"
      using Cons.prems(2) by (cases u) auto
    from Cons.IH[OF a'(1) u'(2)] show ?thesis using a' u' by simp
  qed
qed

lemma find_first_None: "find_first d s = None \<Longrightarrow> \<not> sublist d s"
proof (induction s)
  case Nil
  then show ?case by (auto split: if_splits)
next
  case (Cons c cs)
  then show ?case
    by (auto split: if_splits option.splits simp: sublist_Cons_right)
qed

lemma find_first_sublist: "sublist d s \<Longrightarrow> \<exists>a b. find_first d s = Some (a, b)"
  using find_first_None by (cases "find_first d s") auto

lemma split1_cases:
  "split1 k d = [k] \<and> find_first d k = None
   \<or> (\<exists>a b. split1 k d = [a, b] \<and> find_first d k = Some (a, b))"
  by (auto simp: split1_def split: option.splits)

lemma find_first_join:
  assumes "\<not> sublist ''::'' (t @ '':'')"
  shows "find_first ''::'' (t @ ''::'' @ n) = Some (t, n)"
proof -
  have "sublist ''::'' (t @ ''::'' @ n)" by (simp add: sublist_def) blast
  then obtain a b where ab: "find_first ''::'' (t @ ''::'' @ n) = Some (a, b)"
    using find_first_sublist by blast
  then have eq: "t @ ''::'' @ n = a @ ''::'' @ b" by (rule find_first_Some_decomp)
  from find_first_first[OF ab, of t n] have le: "length a \<le> length t" by simp
  have "\<not> length a < length t"
  proof
    assume lt: "length a < length t"
    have "(t @ '':'') @ '':'' @ n = (a @ ''::'') @ b" using eq by simp
    moreover have "length (a @ ''::'') \<le> length (t @ '':'')" using lt by simp
    ultimately have "prefix (a @ ''::'') (t @ '':'')"
      by (metis append_eq_append_conv_if prefix_def append_take_drop_id)
    then have "sublist ''::'' (t @ '':'')"
      by (metis prefix_def sublist_def append.assoc)
    with assms show False by simp
  qed
  with le have "length a = length t" by simp
  with eq have "a = t" "b = n" by auto
  with ab show ?thesis by simp
qed

lemma find_first_join_conv:
  assumes "find_first ''::'' (t @ ''::'' @ n) = Some (t, n)"
  shows "\<not> sublist ''::'' (t @ '':'')"
proof
  assume "sublist ''::'' (t @ '':'')"
  then obtain u v where uv: "t @ '':'' = u @ ''::'' @ v" by (auto simp: sublist_def)
  then have "t @ ''::'' @ n = u @ ''::'' @ (v @ '':'' @ n)"
    by (metis append.assoc append_Cons append_Nil)
  from find_first_first[OF assms this] have "length t \<le> length u" .
  moreover from uv have "length (t @ '':'') = length (u @ ''::'' @ v)" by simp
  ultimately show False by simp
qed

lemma first_occurrence_iff:
  "(\<not> sublist ''::'' (t @ '':'')) = (\<not> sublist ''::'' t \<and> (t = [] \<or> last t \<noteq> CHR '':''))"
proof (induction t)
  case Nil
  show ?case by (simp add: sublist_Cons_right)
next
  case (Cons c t)
  show ?case
  proof (cases t)
    case Nil
    then show ?thesis by (auto simp: sublist_Cons_right)
  next
    case (Cons x xs)
    with Cons.IH show ?thesis by (auto simp: sublist_Cons_right)
  qed
qed

subsection \<open>Keys\<close>

lemma split_key_Inr:
  "(split_key k = Inr (t, n)) =
   (find_first delimiter k = Some (t, n) \<and> strip t \<noteq> [] \<and> strip n \<noteq> [])"
  using split1_cases[of k delimiter]
  by (auto simp: split_key_def Let_def)

lemma split_key_Inl: "split_key k = Inl e \<Longrightarrow> e = FormatError k"
  by (auto simp: split_key_def Let_def split: if_splits list.splits)

lemma split_key_fails_iff:
  "(\<exists>e. split_key k = Inl e) =
   (length (split1 k delimiter) \<noteq> 2 \<or> (\<exists>p\<in>set (split1 k delimiter). strip p = []))"
  using split1_cases[of k delimiter]
  by (auto simp: split_key_def Let_def list_ex_iff)

lemma split_key_iff:
  "(split_key k = Inr (t, n)) =
   (k = join_key t n \<and> \<not> sublist delimiter (t @ '':'') \<and> nonblank t \<and> nonblank n)"
proof
  assume a: "split_key k = Inr (t, n)"
  then have f: "find_first delimiter k = Some (t, n)" and s: "strip t \<noteq> []" "strip n \<noteq> []"
    by (simp_all add: split_key_Inr)
  from f have k: "k = t @ delimiter @ n" by (rule find_first_Some_decomp)
  with f have "\<not> sublist delimiter (t @ '':'')"
    using find_first_join_conv[of t n] by (simp add: delimiter_def)
  with k s show "k = join_key t n \<and> \<not> sublist delimiter (t @ '':'') \<and> nonblank t \<and> nonblank n"
    by (simp add: join_key_def strip_empty_iff)
next
  assume "k = join_key t n \<and> \<not> sublist delimiter (t @ '':'') \<and> nonblank t \<and> nonblank n"
  then show "split_key k = Inr (t, n)"
    using find_first_join[of t n]
    by (simp add: split_key_Inr join_key_def delimiter_def strip_empty_iff)
qed

lemma join_split_key: "split_key k = Inr (t, n) \<Longrightarrow> join_key t n = k"
  by (simp add: split_key_iff)

lemma nonblank_not_Nil: "nonblank t \<Longrightarrow> t \<noteq> []"
  by (auto simp: nonblank_def)

text \<open>
  C7, as the claim states it, fails: \<open>check_key\<close> is the validation, and it looks at
  the comma only. A key without delimiter, and a key whose first part is blank, pass it.
\<close>

theorem check_key_accepts_unsplittable:
  "check_key ''docker'' False = Inr True \<and> length (split1 ''docker'' delimiter) \<noteq> 2
   \<and> check_key '' ::x'' False = Inr True \<and> list_ex (\<lambda>p. strip p = []) (split1 '' ::x'' delimiter)"
  by (simp add: check_key_def split1_def delimiter_def strip_def is_space_def)

text \<open>
  C7 (amended): \<open>check_key\<close> refuses exactly the keys with a comma, by a
  \<open>ValueError\<close> or, when silent, by returning \<open>False\<close>, and accepts every other
  key. A key that does not split at its first delimiter into exactly two parts, none of
  them empty or whitespace only, is refused by \<open>split_key\<close> with a \<open>ValueError\<close>.
  \<open>Sandbox.new\<close> applies both checks: it refuses a key exactly when the key has a
  comma or does not split so, and otherwise gets the two parts.
\<close>

theorem key_validation:
  "(CHR '','' \<in> set k \<longrightarrow> check_key k False = Inl (FormatError k) \<and> check_key k True = Inr False)
   \<and> (CHR '','' \<notin> set k \<longrightarrow> check_key k silent = Inr True)
   \<and> (length (split1 k delimiter) \<noteq> 2 \<or> (\<exists>p\<in>set (split1 k delimiter). strip p = [])
        \<longrightarrow> split_key k = Inl (FormatError k))
   \<and> ((new_key k = Inl (FormatError k)) =
        (CHR '','' \<in> set k \<or> length (split1 k delimiter) \<noteq> 2
         \<or> (\<exists>p\<in>set (split1 k delimiter). strip p = [])))
   \<and> ((\<exists>t n. new_key k = Inr (t, n)) =
        (CHR '','' \<notin> set k \<and> length (split1 k delimiter) = 2
         \<and> (\<forall>p\<in>set (split1 k delimiter). strip p \<noteq> [])))"
proof -
  let ?bad = "length (split1 k delimiter) \<noteq> 2 \<or> (\<exists>p\<in>set (split1 k delimiter). strip p = [])"
  have fail: "?bad \<Longrightarrow> split_key k = Inl (FormatError k)"
    using split_key_fails_iff[of k] split_key_Inl[of k] by blast
  have ok: "\<not> ?bad \<Longrightarrow> \<exists>t n. split_key k = Inr (t, n)"
    using split_key_fails_iff[of k] by (cases "split_key k") auto
  have c1: "CHR '','' \<in> set k \<longrightarrow> check_key k False = Inl (FormatError k) \<and> check_key k True = Inr False"
    by (simp add: check_key_def)
  have c2: "CHR '','' \<notin> set k \<longrightarrow> check_key k silent = Inr True"
    by (simp add: check_key_def)
  have c3: "?bad \<longrightarrow> split_key k = Inl (FormatError k)" using fail by blast
  have n1: "CHR '','' \<in> set k \<Longrightarrow> new_key k = Inl (FormatError k)"
    by (simp add: new_key_def check_key_def)
  have n2: "CHR '','' \<notin> set k \<Longrightarrow> new_key k = split_key k"
    by (simp add: new_key_def check_key_def)
  have c4: "(new_key k = Inl (FormatError k)) = (CHR '','' \<in> set k \<or> ?bad)"
  proof (cases "CHR '','' \<in> set k")
    case True
    with n1 show ?thesis by simp
  next
    case False
    show ?thesis
    proof (cases ?bad)
      case True
      with fail n2 False show ?thesis by simp
    next
      case nb: False
      from ok[OF nb] n2 False nb show ?thesis by auto
    qed
  qed
  have c5: "(\<exists>t n. new_key k = Inr (t, n)) = (CHR '','' \<notin> set k \<and> \<not> ?bad)"
  proof (cases "CHR '','' \<in> set k")
    case True
    with n1 show ?thesis by simp
  next
    case False
    show ?thesis
    proof (cases ?bad)
      case True
      with fail n2 False show ?thesis by simp
    next
      case nb: False
      from ok[OF nb] n2 False nb show ?thesis by auto
    qed
  qed
  from c1 c2 c3 c4 c5 show ?thesis by simp
qed

text \<open>A key with a comma, a key without delimiter and a well-formed key.\<close>

theorem key_validation_witness:
  "CHR '','' \<in> set ''a::b,c::d''
   \<and> check_key ''a::b,c::d'' False = Inl (FormatError ''a::b,c::d'')
   \<and> check_key ''a::b,c::d'' True = Inr False
   \<and> CHR '','' \<notin> set ''docker''
   \<and> check_key ''docker'' False = Inr True
   \<and> length (split1 ''docker'' delimiter) \<noteq> 2
   \<and> split_key ''docker'' = Inl (FormatError ''docker'')
   \<and> new_key ''docker'' = Inl (FormatError ''docker'')
   \<and> new_key ''docker::slc7'' = Inr (''docker'', ''slc7'')"
  using key_validation[of "''a::b,c::d''" False] key_validation[of "''docker''" False]
    key_validation[of "''docker::slc7''" False]
  by (simp add: check_key_def new_key_def split_key_def split1_def delimiter_def strip_def is_space_def)

text \<open>
  C8, as the claim states it, fails. The type \<open>a:\<close> and the name \<open>b\<close> are not
  empty and hold neither the delimiter nor a comma, yet the joined key \<open>a:::b\<close>
  splits at its first delimiter into \<open>a\<close> and \<open>:b\<close>. A type of one space is not
  empty either, and the joined key is refused.
\<close>

theorem split_join_key_counterexample:
  "''a:'' \<noteq> [] \<and> ''b'' \<noteq> []
   \<and> \<not> sublist delimiter ''a:'' \<and> \<not> sublist delimiter ''b''
   \<and> CHR '','' \<notin> set ''a:'' \<and> CHR '','' \<notin> set ''b''
   \<and> split_key (join_key ''a:'' ''b'') = Inr (''a'', '':b'')
   \<and> split_key (join_key ''a:'' ''b'') \<noteq> Inr (''a:'', ''b'')
   \<and> '' '' \<noteq> [] \<and> \<not> sublist delimiter '' '' \<and> CHR '','' \<notin> set '' ''
   \<and> split_key (join_key '' '' ''b'') = Inl (FormatError '' ::b'')"
  by (simp add: split_key_def join_key_def split1_def delimiter_def strip_def is_space_def
      sublist_Cons_right)

text \<open>
  C8 (amended): splitting the joined key gives back the type \<open>t\<close> and the name
  \<open>n\<close> exactly when both hold a character that is not whitespace, \<open>t\<close> does not
  hold the delimiter and \<open>t\<close> does not end in a colon. Commas, and delimiters inside
  \<open>n\<close>, do no harm.
\<close>

theorem split_join_key:
  "(split_key (join_key t n) = Inr (t, n)) =
   (nonblank t \<and> nonblank n \<and> \<not> sublist delimiter t \<and> last t \<noteq> CHR '':'')"
proof -
  have "(split_key (join_key t n) = Inr (t, n)) =
        (\<not> sublist ''::'' (t @ '':'') \<and> nonblank t \<and> nonblank n)"
    by (simp add: split_key_iff delimiter_def)
  also have "\<dots> = (nonblank t \<and> nonblank n \<and> \<not> sublist delimiter t \<and> last t \<noteq> CHR '':'')"
    using nonblank_not_Nil[of t] by (auto simp: first_occurrence_iff delimiter_def)
  finally show ?thesis .
qed

text \<open>The key \<open>docker::slc7\<close>.\<close>

theorem split_join_key_witness:
  "nonblank ''docker'' \<and> nonblank ''slc7'' \<and> \<not> sublist delimiter ''docker''
   \<and> last ''docker'' \<noteq> CHR '':''
   \<and> split_key (join_key ''docker'' ''slc7'') = Inr (''docker'', ''slc7'')"
  using split_join_key[of "''docker''" "''slc7''"]
  by (simp add: nonblank_def is_space_def delimiter_def sublist_Cons_right)

subsection \<open>The environment cache\<close>

lemma env_hit:
  fixes g :: "'a globals_scheme"
  shows "envs g (key_of (sb, be)) = Some v \<Longrightarrow> env sb be g = (Inr v, g)"
  by (simp add: env_def key_of_def)

lemma env_miss:
  fixes g :: "'a globals_scheme"
  assumes "envs g (key_of (sb, be)) = None"
  shows "env sb be g =
     (case create_env be of
        Inl e \<Rightarrow> (Inl e, g\<lparr>create_env_calls := create_env_calls g @ [key_of (sb, be)]\<rparr>)
      | Inr v \<Rightarrow> (Inr v, g\<lparr>envs := (envs g)(key_of (sb, be) \<mapsto> v),
                     create_env_calls := create_env_calls g @ [key_of (sb, be)]\<rparr>))"
  using assms by (simp add: env_def key_of_def Let_def split: sum.splits)

lemma env_cached_step:
  fixes g :: "'a globals_scheme"
  assumes "envs g k = Some v" and "env sb be g = (r, g1)"
  shows "envs g1 k = Some v \<and> count_list (create_env_calls g1) k = count_list (create_env_calls g) k
          \<and> (key_of (sb, be) = k \<longrightarrow> r = Inr v \<and> g1 = g)"
proof (cases "envs g (key_of (sb, be))")
  case None
  with assms(1) have ne: "key_of (sb, be) \<noteq> k" by auto
  from assms(2) None ne assms(1) show ?thesis
    by (auto simp: env_miss split: sum.splits)
next
  case (Some u)
  with assms show ?thesis by (auto simp: env_hit)
qed

lemma env_accesses_cached:
  fixes g :: "'a globals_scheme"
  assumes "envs g k = Some v" and "env_accesses as g = (rs, g')"
  shows "envs g' k = Some v \<and> count_list (create_env_calls g') k = count_list (create_env_calls g) k
         \<and> (\<forall>i < length as. key_of (as ! i) = k \<longrightarrow> rs ! i = Inr v)"
  using assms
proof (induction as arbitrary: g rs g')
  case Nil
  then show ?case by simp
next
  case (Cons a as)
  obtain sb be where a: "a = (sb, be)" by (cases a)
  obtain r g1 where e: "env sb be g = (r, g1)" by (cases "env sb be g")
  obtain rs' g2 where r: "env_accesses as g1 = (rs', g2)" by (cases "env_accesses as g1")
  from Cons.prems(2) a e r have rs: "rs = r # rs'" and g': "g' = g2" by auto
  from env_cached_step[OF Cons.prems(1) e]
  have s: "envs g1 k = Some v" "count_list (create_env_calls g1) k = count_list (create_env_calls g) k"
    "key_of (sb, be) = k \<longrightarrow> r = Inr v" by auto
  from Cons.IH[OF s(1) r]
  have ih: "envs g2 k = Some v" "count_list (create_env_calls g2) k = count_list (create_env_calls g1) k"
    "\<forall>i<length as. key_of (as ! i) = k \<longrightarrow> rs' ! i = Inr v" by auto
  show ?case
  proof (intro conjI allI impI)
    show "envs g' k = Some v" using ih g' by simp
    show "count_list (create_env_calls g') k = count_list (create_env_calls g) k" using ih s g' by simp
    fix i assume "i < length (a # as)" "key_of ((a # as) ! i) = k"
    then show "rs ! i = Inr v" using s(3) ih(3) a rs by (cases i) auto
  qed
qed

lemma env_once_step:
  fixes g :: "'a globals_scheme"
  assumes "resolved_once g" and "env sb be g = (r, g1)" and "create_env be = Inr v"
  shows "resolved_once g1 \<and> dom (envs g1) = insert (key_of (sb, be)) (dom (envs g))"
proof (cases "envs g (key_of (sb, be))")
  case None
  with assms(2,3) have g1: "g1 = g\<lparr>envs := (envs g)(key_of (sb, be) \<mapsto> v),
                     create_env_calls := create_env_calls g @ [key_of (sb, be)]\<rparr>"
    by (simp add: env_miss)
  from assms(1) have "\<And>k. count_list (create_env_calls g) k = (if envs g k = None then 0 else 1)"
    unfolding resolved_once_def by blast
  then have "\<And>k. count_list (create_env_calls g1) k = (if envs g1 k = None then 0 else 1)"
    using None unfolding g1 by simp
  then have "resolved_once g1" unfolding resolved_once_def by blast
  then show ?thesis by (simp add: g1)
next
  case (Some u)
  with assms(2) have "g1 = g" by (simp add: env_hit)
  with assms(1) Some show ?thesis by auto
qed

lemma env_accesses_once:
  fixes g :: "'a globals_scheme"
  assumes "resolved_once g" and "env_accesses as g = (rs, g')"
    and "\<forall>a\<in>set as. \<exists>v. create_env (snd a) = Inr v"
  shows "resolved_once g' \<and> dom (envs g') = key_of ` set as \<union> dom (envs g)"
  using assms
proof (induction as arbitrary: g rs g')
  case Nil
  then show ?case by simp
next
  case (Cons a as)
  obtain sb be where a: "a = (sb, be)" by (cases a)
  obtain r g1 where e: "env sb be g = (r, g1)" by (cases "env sb be g")
  obtain rs' g2 where r: "env_accesses as g1 = (rs', g2)" by (cases "env_accesses as g1")
  from Cons.prems(2) a e r have g': "g' = g2" by auto
  from Cons.prems(3) a obtain v where v: "create_env be = Inr v" by auto
  from env_once_step[OF Cons.prems(1) e v]
  have s: "resolved_once g1" "dom (envs g1) = insert (key_of (sb, be)) (dom (envs g))" by auto
  from Cons.prems(3) have "\<forall>a\<in>set as. \<exists>v. create_env (snd a) = Inr v" by simp
  from Cons.IH[OF s(1) r this] s(2) a g' show ?case by auto
qed

lemma resolved_once_process_start: "resolved_once process_start"
  by (simp add: resolved_once_def process_start_def)

text \<open>
  C1: (1) after an access that returned a value, an access with the same key returns
  that value and leaves the state alone, so it calls no resolver, whatever the
  resolver would do; the first access called the resolver once if the key was not
  cached and not at all otherwise. (2) Once a key is cached, any later accesses leave
  its value and its number of resolver calls as they are, and each of them with that
  key returns the cached value. (3) From the start of the process, when no resolver
  raises, the resolver has been called exactly once for every key accessed and never
  for another key. (4) An access whose resolver raises caches nothing, and the next
  access with the same key calls the resolver again.
\<close>

theorem env_resolved_once_per_key:
  fixes g :: globals
  shows
  "(env sb be g = (Inr v, g1) \<and> key_of (sb2, be2) = key_of (sb, be) \<longrightarrow>
      env sb2 be2 g1 = (Inr v, g1)
      \<and> count_list (create_env_calls g1) (key_of (sb, be)) =
          count_list (create_env_calls g) (key_of (sb, be))
          + (if envs g (key_of (sb, be)) = None then 1 else 0))
   \<and> (envs g k = Some v \<and> env_accesses as g = (rs, g2) \<longrightarrow>
      envs g2 k = Some v
      \<and> count_list (create_env_calls g2) k = count_list (create_env_calls g) k
      \<and> (\<forall>i < length as. key_of (as ! i) = k \<longrightarrow> rs ! i = Inr v))
   \<and> ((\<forall>a\<in>set as. \<exists>u. create_env (snd a) = Inr u) \<longrightarrow>
      count_list (create_env_calls (snd (env_accesses as process_start))) k =
        (if k \<in> key_of ` set as then 1 else 0))
   \<and> (env sb be g = (Inl e, g1) \<and> key_of (sb2, be2) = key_of (sb, be) \<longrightarrow>
      create_env be = Inl e
      \<and> envs g1 = envs g \<and> envs g1 (key_of (sb, be)) = None
      \<and> create_env_calls g1 = create_env_calls g @ [key_of (sb, be)]
      \<and> fst (env sb2 be2 g1) = create_env be2
      \<and> create_env_calls (snd (env sb2 be2 g1)) = create_env_calls g1 @ [key_of (sb, be)])"
proof (intro conjI impI)
  assume a: "env sb be g = (Inr v, g1) \<and> key_of (sb2, be2) = key_of (sb, be)"
  show "env sb2 be2 g1 = (Inr v, g1)"
  proof (cases "envs g (key_of (sb, be))")
    case None
    with a have "envs g1 (key_of (sb, be)) = Some v"
      by (auto simp: env_miss split: sum.splits)
    with a show ?thesis by (simp add: env_hit)
  next
    case (Some u)
    with a have "g1 = g" "u = v" by (auto simp: env_hit)
    with Some a show ?thesis by (simp add: env_hit)
  qed
  show "count_list (create_env_calls g1) (key_of (sb, be)) =
          count_list (create_env_calls g) (key_of (sb, be))
          + (if envs g (key_of (sb, be)) = None then 1 else 0)"
  proof (cases "envs g (key_of (sb, be))")
    case None
    with a show ?thesis by (auto simp: env_miss split: sum.splits)
  next
    case (Some u)
    with a show ?thesis by (auto simp: env_hit)
  qed
next
  assume a: "envs g k = Some v \<and> env_accesses as g = (rs, g2)"
  then have "envs g2 k = Some v \<and> count_list (create_env_calls g2) k = count_list (create_env_calls g) k
         \<and> (\<forall>i < length as. key_of (as ! i) = k \<longrightarrow> rs ! i = Inr v)"
    using env_accesses_cached[of g k v as rs g2] by blast
  then show "envs g2 k = Some v"
    and "count_list (create_env_calls g2) k = count_list (create_env_calls g) k"
    and "\<forall>i < length as. key_of (as ! i) = k \<longrightarrow> rs ! i = Inr v" by blast+
next
  assume a: "\<forall>a\<in>set as. \<exists>u. create_env (snd a) = Inr u"
  obtain rs g' where r: "env_accesses as process_start = (rs, g')"
    by (cases "env_accesses as process_start")
  from env_accesses_once[OF resolved_once_process_start r a]
  have o: "resolved_once g'" and d: "dom (envs g') = key_of ` set as"
    by (simp_all add: process_start_def)
  from o have "count_list (create_env_calls g') k = (if envs g' k = None then 0 else 1)"
    unfolding resolved_once_def by blast
  moreover have "(envs g' k = None) = (k \<notin> key_of ` set as)" using d by (auto simp: domIff)
  ultimately show "count_list (create_env_calls (snd (env_accesses as process_start))) k =
        (if k \<in> key_of ` set as then 1 else 0)"
    using r by simp
next
  assume a: "env sb be g = (Inl e, g1) \<and> key_of (sb2, be2) = key_of (sb, be)"
  have none: "envs g (key_of (sb, be)) = None"
  proof (cases "envs g (key_of (sb, be))")
    case (Some u)
    with a show ?thesis by (simp add: env_hit)
  qed simp
  with a have ce: "create_env be = Inl e"
    and g1: "g1 = g\<lparr>create_env_calls := create_env_calls g @ [key_of (sb, be)]\<rparr>"
    by (auto simp: env_miss split: sum.splits)
  show "create_env be = Inl e" by (rule ce)
  show "envs g1 = envs g" by (simp add: g1)
  show "envs g1 (key_of (sb, be)) = None" using none by (simp add: g1)
  show "create_env_calls g1 = create_env_calls g @ [key_of (sb, be)]" by (simp add: g1)
  have n2: "envs g1 (key_of (sb2, be2)) = None" using none a by (simp add: g1)
  show "fst (env sb2 be2 g1) = create_env be2"
    by (simp add: env_miss[OF n2] split: sum.splits)
  show "create_env_calls (snd (env sb2 be2 g1)) = create_env_calls g1 @ [key_of (sb, be)]"
    using a by (simp add: env_miss[OF n2] split: sum.splits)
qed

text \<open>
  One sandbox key, a resolver that returns and one that raises: the value of the first
  access comes back from the second although its resolver would raise; after a failed
  access the next one resolves.
\<close>

theorem env_resolved_once_per_key_witness:
  "env docker_slc7 resolving process_start =
     (Inr [(''PATH'', ''/bin'')],
      \<lparr>envs = [(''docker'', ''image'') \<mapsto> [(''PATH'', ''/bin'')]],
       create_env_calls = [(''docker'', ''image'')]\<rparr>)
   \<and> key_of (docker_slc7, raising) = key_of (docker_slc7, resolving)
   \<and> env docker_slc7 raising
        \<lparr>envs = [(''docker'', ''image'') \<mapsto> [(''PATH'', ''/bin'')]],
         create_env_calls = [(''docker'', ''image'')]\<rparr> =
       (Inr [(''PATH'', ''/bin'')],
        \<lparr>envs = [(''docker'', ''image'') \<mapsto> [(''PATH'', ''/bin'')]],
         create_env_calls = [(''docker'', ''image'')]\<rparr>)
   \<and> create_env_calls (snd (env_accesses [(docker_slc7, resolving), (docker_slc7, resolving)]
         process_start)) = [(''docker'', ''image'')]
   \<and> env docker_slc7 raising process_start =
       (Inl (External ''no such image''),
        \<lparr>envs = Map.empty, create_env_calls = [(''docker'', ''image'')]\<rparr>)
   \<and> env docker_slc7 resolving
        \<lparr>envs = Map.empty, create_env_calls = [(''docker'', ''image'')]\<rparr> =
       (Inr [(''PATH'', ''/bin'')],
        \<lparr>envs = [(''docker'', ''image'') \<mapsto> [(''PATH'', ''/bin'')]],
         create_env_calls = [(''docker'', ''image''), (''docker'', ''image'')]\<rparr>)"
  using env_resolved_once_per_key[of docker_slc7 resolving process_start "[(''PATH'', ''/bin'')]"
      "\<lparr>envs = [(''docker'', ''image'') \<mapsto> [(''PATH'', ''/bin'')]],
        create_env_calls = [(''docker'', ''image'')]\<rparr>"
      docker_slc7 raising "(''docker'', ''image'')"
      "[(docker_slc7, resolving), (docker_slc7, resolving)]"]
  by (simp add: env_def key_of_def docker_slc7_def resolving_def raising_def process_start_def Let_def)

subsection \<open>Target structures and the copy loops\<close>

lemma collect_map_if:
  "(\<And>x. x \<in> set xs \<Longrightarrow> g x = (if P x then Inr (h x) else Inl e)) \<Longrightarrow>
   collect (map g xs) = (if list_all P xs then Inr (map h xs) else Inl e)"
  by (induction xs) auto

lemma collect_Inl: "collect rs = Inl e \<Longrightarrow> Inl e \<in> set rs"
  by (induction rs) (auto split: sum.splits)

lemma snd_in_snds: "snd kv \<in> Basic_BNFs.snds kv"
  by (cases kv) simp

lemma map_struct_exact:
  assumes leaf: "\<And>t. func (Leaf t) = Inr (Leaf (f t))"
    and tuple: "\<And>xs. func (Tuple xs) = Inl e"
  shows "map_struct func s = (if tuple_free s then Inr (struct_map f s) else Inl e)"
proof (induction s)
  case (Leaf t)
  show ?case by (simp add: leaf)
next
  case (Mapping kvs)
  have "collect (map (\<lambda>kv. case map_struct func (snd kv) of
                              Inl e \<Rightarrow> Inl e
                            | Inr v \<Rightarrow> Inr (fst kv, v)) kvs) =
        (if list_all (\<lambda>kv. tuple_free (snd kv)) kvs
         then Inr (map (\<lambda>kv. (fst kv, struct_map f (snd kv))) kvs) else Inl e)"
  proof (rule collect_map_if)
    fix kv assume "kv \<in> set kvs"
    then have "map_struct func (snd kv) =
               (if tuple_free (snd kv) then Inr (struct_map f (snd kv)) else Inl e)"
      using Mapping.IH snd_in_snds by blast
    then show "(case map_struct func (snd kv) of Inl e \<Rightarrow> Inl e | Inr v \<Rightarrow> Inr (fst kv, v)) =
               (if tuple_free (snd kv) then Inr (fst kv, struct_map f (snd kv)) else Inl e)"
      by simp
  qed
  moreover have "map (\<lambda>kv. (fst kv, struct_map f (snd kv))) kvs = map (map_prod id (struct_map f)) kvs"
    by (simp add: map_prod_def case_prod_beta)
  ultimately show ?case by simp
next
  case (Sequence xs)
  have "collect (map (map_struct func) xs) =
        (if list_all tuple_free xs then Inr (map (struct_map f) xs) else Inl e)"
    by (rule collect_map_if) (rule Sequence.IH)
  then show ?case by simp
next
  case (Tuple xs)
  show ?case by (simp add: tuple)
next
  case (Collection s)
  then show ?case by simp
qed

lemma map_struct_error:
  assumes "\<And>x. func x = Inl e"
  shows "map_struct func s = Inl e' \<Longrightarrow> e' = e"
proof (induction s)
  case (Leaf t)
  then show ?case by (simp add: assms)
next
  case (Mapping kvs)
  from Mapping.prems
  have "collect (map (\<lambda>kv. case map_struct func (snd kv) of
                              Inl e \<Rightarrow> Inl e
                            | Inr v \<Rightarrow> Inr (fst kv, v)) kvs) = Inl e'"
    by (simp split: sum.splits)
  from collect_Inl[OF this] obtain kv where kv: "kv \<in> set kvs"
    "(case map_struct func (snd kv) of Inl e \<Rightarrow> Inl e | Inr v \<Rightarrow> Inr (fst kv, v)) = Inl e'"
    by auto
  then have "map_struct func (snd kv) = Inl e'" by (simp split: sum.splits)
  with kv(1) Mapping.IH snd_in_snds show ?case by blast
next
  case (Sequence xs)
  from Sequence.prems have "collect (map (map_struct func) xs) = Inl e'"
    by (simp split: sum.splits)
  from collect_Inl[OF this] obtain x where "x \<in> set xs" "map_struct func x = Inl e'"
    by auto
  with Sequence.IH show ?case by blast
next
  case (Tuple xs)
  then show ?case by (simp add: assms)
next
  case (Collection s)
  then show ?case by (simp split: sum.splits)
qed

lemma create_staged_target_struct_exact:
  assumes "stage_dir_path sd = Inr d"
  shows "create_staged_target_struct sd s =
         (if tuple_free s then Inr (struct_map (staged_leaf d) s) else Inl AttributeError)"
  unfolding create_staged_target_struct_def
  by (rule map_struct_exact) (simp_all add: create_staged_target_def assms)

lemma create_staged_target_struct_error:
  assumes "stage_dir_path sd = Inl e" and "create_staged_target_struct sd s = Inl e'"
  shows "e' = e"
proof -
  let ?func = "\<lambda>target. case create_staged_target sd target of
                            Inl e \<Rightarrow> Inl e
                          | Inr staged \<Rightarrow> Inr (Leaf staged)"
  have all: "\<And>x. ?func x = Inl e"
    by (simp add: create_staged_target_def assms(1))
  have "map_struct ?func s = Inl e'"
    using assms(2) by (simp add: create_staged_target_struct_def)
  then show ?thesis by (rule map_struct_error[OF all])
qed

lemma flatten_struct_map: "flatten (struct_map f s) = map (map_item f) (flatten s)"
proof (induction s)
  case (Mapping kvs)
  have "\<And>kv. kv \<in> set kvs \<Longrightarrow>
          flatten (struct_map f (snd kv)) = map (map_item f) (flatten (snd kv))"
    using Mapping.IH snd_in_snds by blast
  then show ?case by (induction kvs) (simp_all add: map_concat)
next
  case (Sequence xs)
  then show ?case by (induction xs) (simp_all add: map_concat)
next
  case (Tuple xs)
  then show ?case by (induction xs) (simp_all add: map_concat)
qed simp_all

lemma leaves_struct_map: "leaves (struct_map f s) = map f (leaves s)"
proof (induction s)
  case (Mapping kvs)
  have "\<And>kv. kv \<in> set kvs \<Longrightarrow> leaves (struct_map f (snd kv)) = map f (leaves (snd kv))"
    using Mapping.IH snd_in_snds by blast
  then show ?case by (induction kvs) (simp_all add: map_concat)
next
  case (Sequence xs)
  then show ?case by (induction xs) (simp_all add: map_concat)
next
  case (Tuple xs)
  then show ?case by (induction xs) (simp_all add: map_concat)
qed simp_all

lemma leaves_flatten: "concat (map item_leaves (flatten s)) = leaves s"
proof (induction s)
  case (Mapping kvs)
  have "\<And>kv. kv \<in> set kvs \<Longrightarrow> concat (map item_leaves (flatten (snd kv))) = leaves (snd kv)"
    using Mapping.IH snd_in_snds by blast
  then show ?case by (induction kvs) simp_all
next
  case (Sequence xs)
  then show ?case by (induction xs) simp_all
next
  case (Tuple xs)
  then show ?case by (induction xs) simp_all
qed simp_all

lemma queue_weight_Coll:
  "queue_weight (flatten c @ xs) < queue_weight (Coll c # xs)"
  using queue_weight_flatten[of c]
  by (simp add: queue_weight_append) (simp add: queue_weight_def)

lemma stagein_copy_leaves:
  "stagein_copy q (map (map_item f) q) w = copy_in_leaves f (concat (map item_leaves q)) w"
proof (induction "queue_weight q" arbitrary: q w rule: less_induct)
  case less
  show ?case
  proof (cases q)
    case Nil
    then show ?thesis by simp
  next
    case (Cons x xs)
    show ?thesis
    proof (cases x)
      case (Target t)
      have "queue_weight xs < queue_weight q" using Cons Target by (simp add: queue_weight_def)
      from less[OF this] show ?thesis using Cons Target by (simp split: sum.splits)
    next
      case (Coll c)
      have "queue_weight (flatten c @ xs) < queue_weight q"
        using Cons Coll queue_weight_Coll by simp
      from less[OF this, of w] show ?thesis
        using Cons Coll
        by (simp add: flat_target_list_def flatten_struct_map leaves_flatten)
    qed
  qed
qed

lemma stageout_copy_leaves:
  "stageout_copy q (map (map_item f) q) w = copy_out_leaves f (concat (map item_leaves q)) w"
proof (induction "queue_weight q" arbitrary: q w rule: less_induct)
  case less
  show ?case
  proof (cases q)
    case Nil
    then show ?thesis by simp
  next
    case (Cons x xs)
    show ?thesis
    proof (cases x)
      case (Target t)
      have "queue_weight xs < queue_weight q" using Cons Target by (simp add: queue_weight_def)
      from less[OF this] show ?thesis using Cons Target by (simp split: sum.splits)
    next
      case (Coll c)
      have "queue_weight (flatten c @ xs) < queue_weight q"
        using Cons Coll queue_weight_Coll by simp
      from less[OF this, of w] show ?thesis
        using Cons Coll
        by (simp add: flat_target_list_def flatten_struct_map leaves_flatten)
    qed
  qed
qed

lemma stagein_copy_struct:
  "stagein_copy (flatten s) (flatten (struct_map f s)) w = copy_in_leaves f (leaves s) w"
  by (simp add: flatten_struct_map stagein_copy_leaves leaves_flatten)

lemma stageout_copy_struct:
  "stageout_copy (flatten s) (flatten (struct_map f s)) w = copy_out_leaves f (leaves s) w"
  by (simp add: flatten_struct_map stageout_copy_leaves leaves_flatten)

lemma distinct_map_append_left: "distinct (map (\<lambda>x. p @ g x) xs) = distinct (map g xs)"
  by (induction xs) auto

text \<open>
  C4, as the claim states it, fails: two leaves with different paths and the same
  \<open>unique_basename\<close> are staged, without any error, to one and the same path.
\<close>

theorem staging_collision_counterexample:
  "path events_a \<noteq> path events_b
   \<and> create_staged_target_struct (DirTarget ''/tmp/stagein'')
        (Sequence [Leaf events_a, Leaf events_b]) =
       Inr (Sequence [Leaf \<lparr>local_path = ''/tmp/stagein/events.root'', local_type = ''f''\<rparr>,
                      Leaf \<lparr>local_path = ''/tmp/stagein/events.root'', local_type = ''f''\<rparr>])"
  by (simp add: create_staged_target_struct_def create_staged_target_def stage_dir_path_def
      staged_leaf_def child_path_def events_a_def events_b_def)

text \<open>
  C4 (amended): \<open>create_staged_target_struct\<close> checks no collision. With a staging
  directory at the path \<open>d\<close> it returns, for every structure without a tuple and
  whatever the \<open>unique_basename\<close> values of its leaves are, the structure of the same
  shape in which every leaf lies at \<open>d/unique_basename\<close>; the staged leaves lie at
  pairwise different paths exactly when the leaves have pairwise different
  \<open>unique_basename\<close> values. The errors it raises are no collision errors: an
  \<open>AttributeError\<close> for a structure with a tuple, and, when the staging directory is
  given as a path whose conversion to a directory target raises, the error of that
  conversion and no other.
\<close>

theorem staging_checks_no_collision:
  "(stage_dir_path sd = Inr d \<longrightarrow>
      create_staged_target_struct sd s =
        (if tuple_free s then Inr (struct_map (staged_leaf d) s) else Inl AttributeError))
   \<and> struct_map (\<lambda>l. ()) (struct_map (staged_leaf d) s) = struct_map (\<lambda>t. ()) s
   \<and> leaves (struct_map (staged_leaf d) s) = map (staged_leaf d) (leaves s)
   \<and> map local_path (leaves (struct_map (staged_leaf d) s)) =
       map (\<lambda>t. d @ ''/'' @ unique_basename t) (leaves s)
   \<and> distinct (map local_path (leaves (struct_map (staged_leaf d) s))) =
       distinct (map unique_basename (leaves s))
   \<and> (\<forall>e e'. stage_dir_path sd = Inl e \<and> create_staged_target_struct sd s = Inl e' \<longrightarrow> e' = e)"
proof -
  have exact: "stage_dir_path sd = Inr d \<longrightarrow>
      create_staged_target_struct sd s =
        (if tuple_free s then Inr (struct_map (staged_leaf d) s) else Inl AttributeError)"
    using create_staged_target_struct_exact by blast
  have shape: "struct_map (\<lambda>l. ()) (struct_map (staged_leaf d) s) = struct_map (\<lambda>t. ()) s"
    by (simp add: struct.map_comp comp_def)
  have lv: "leaves (struct_map (staged_leaf d) s) = map (staged_leaf d) (leaves s)"
    by (rule leaves_struct_map)
  have paths: "map local_path (leaves (struct_map (staged_leaf d) s)) =
       map (\<lambda>t. d @ ''/'' @ unique_basename t) (leaves s)"
    by (simp add: lv staged_leaf_def child_path_def comp_def)
  have "distinct (map (\<lambda>t. (d @ ''/'') @ unique_basename t) (leaves s)) =
        distinct (map unique_basename (leaves s))"
    by (rule distinct_map_append_left)
  with paths have dist: "distinct (map local_path (leaves (struct_map (staged_leaf d) s))) =
       distinct (map unique_basename (leaves s))"
    by simp
  have err: "\<forall>e e'. stage_dir_path sd = Inl e \<and> create_staged_target_struct sd s = Inl e' \<longrightarrow> e' = e"
    using create_staged_target_struct_error by blast
  from exact shape lv paths dist err show ?thesis by blast
qed

text \<open>
  Two leaves with different names, staged at different paths; a tuple; and a staging
  directory given as an empty path, which the constructor refuses.
\<close>

theorem staging_checks_no_collision_witness:
  "stage_dir_path (DirTarget ''/tmp/stagein'') = Inr ''/tmp/stagein''
   \<and> tuple_free (Sequence [Leaf hists, Leaf config])
   \<and> create_staged_target_struct (DirTarget ''/tmp/stagein'') (Sequence [Leaf hists, Leaf config]) =
       Inr (Sequence [Leaf \<lparr>local_path = ''/tmp/stagein/1f_hists.root'', local_type = ''f''\<rparr>,
                      Leaf \<lparr>local_path = ''/tmp/stagein/2a_config.json'', local_type = ''f''\<rparr>])
   \<and> distinct (map unique_basename (leaves (Sequence [Leaf hists, Leaf config])))
   \<and> \<not> tuple_free (Tuple [Leaf hists, Leaf config])
   \<and> create_staged_target_struct (DirTarget ''/tmp/stagein'') (Tuple [Leaf hists, Leaf config]) =
       Inl AttributeError
   \<and> stage_dir_path (DirPath (Inl (External ''no target path''))) = Inl (External ''no target path'')
   \<and> create_staged_target_struct (DirPath (Inl (External ''no target path''))) (Leaf hists) =
       Inl (External ''no target path'')"
  using staging_checks_no_collision[of "DirTarget ''/tmp/stagein''" "''/tmp/stagein''"
      "Sequence [Leaf hists, Leaf config]"]
    staging_checks_no_collision[of "DirTarget ''/tmp/stagein''" "''/tmp/stagein''"
      "Tuple [Leaf hists, Leaf config]"]
    staging_checks_no_collision[of "DirPath (Inl (External ''no target path''))" "''''" "Leaf hists"]
  by (simp add: stage_dir_path_def staged_leaf_def child_path_def hists_def config_def
      create_staged_target_struct_def create_staged_target_def)

subsection \<open>Stage-in\<close>

lemma env_keeps_world:
  fixes w :: world
  assumes "env sb be w = (r, w')"
  shows "events w' = events w \<and> files w' = files w"
  using assms by (auto simp: env_def Let_def split: option.splits sum.splits)

lemma copy_in_leaves_all:
  "\<forall>t\<in>set ts. files w (path t) \<noteq> None \<Longrightarrow>
   \<exists>w'. copy_in_leaves f ts w = (Inr (), w')
        \<and> events w' = events w @ map (\<lambda>t. StageInCopy (path t) (local_path (f t))) ts"
proof (induction ts arbitrary: w)
  case Nil
  then show ?case by simp
next
  case (Cons t ts)
  then obtain c where c: "files w (path t) = Some c" by auto
  let ?w1 = "emit (StageInCopy (path t) (local_path (f t))) (w\<lparr>files := (files w)(local_path (f t) \<mapsto> c)\<rparr>)"
  have "\<forall>u\<in>set ts. files ?w1 (path u) \<noteq> None" using Cons.prems by (simp add: emit_def)
  from Cons.IH[OF this] obtain w' where
    w': "copy_in_leaves f ts ?w1 = (Inr (), w')"
        "events w' = events ?w1 @ map (\<lambda>t. StageInCopy (path t) (local_path (f t))) ts"
    by blast
  have "copy_in_leaves f (t # ts) w = copy_in_leaves f ts ?w1"
    using c by (simp add: copy_to_local_def)
  with w' show ?case by (simp add: emit_def)
qed

lemma filter_stagein_copies:
  "length (filter is_stagein_copy (map (\<lambda>t. StageInCopy (g t) (h t)) ts)) = length ts"
  by (induction ts) simp_all

lemma create_staged_target_struct_DirTarget:
  "create_staged_target_struct (DirTarget d) s =
   (if tuple_free s then Inr (struct_map (staged_leaf d) s) else Inl AttributeError)"
  by (rule create_staged_target_struct_exact) (simp add: stage_dir_path_def)

lemma stagein_resolved:
  assumes "stagein_dir_name p \<noteq> []" and "sandbox_stagein p"
    and "env sb be w = (Inr ev, w1)" and "sandbox_inputs p ev = Some s"
  shows "stagein sb be p tmp_dir w =
     (if tuple_free s then
        (case copy_in_leaves (staged_leaf (child_path tmp_dir (stagein_dir_name p))) (leaves s) w1 of
           (Inl e, w2) \<Rightarrow> (Inl e, w2)
         | (Inr u, w2) \<Rightarrow>
             (Inr (Some \<lparr>targets = s, stage_dir = child_path tmp_dir (stagein_dir_name p),
                         staged_targets =
                           struct_map (staged_leaf (child_path tmp_dir (stagein_dir_name p))) s\<rparr>),
              emit (StagedIn (length (listdir p (child_path tmp_dir (stagein_dir_name p)) (files w2)))) w2))
      else (Inl AttributeError, w1))"
  using assms
  by (simp add: stagein_def Let_def create_staged_target_struct_DirTarget stagein_copy_struct
      split: prod.splits sum.splits)

lemma stagein_raising:
  assumes "stagein_dir_name p \<noteq> []" and "sandbox_stagein p" and "env sb be w = (Inl e, w1)"
  shows "stagein sb be p tmp_dir w = (Inl e, w1)"
  using assms by (simp add: stagein_def)

text \<open>
  C5, as the claim states it, fails on the number: for a mapping of two keys that holds
  a flat collection of three leaves and one more leaf, \<open>stagein\<close> makes four copies.
\<close>

theorem stagein_four_copies:
  "sandbox_inputs no_hooks [(''PATH'', ''/bin'')] =
     Some (Mapping [(''data'', Collection (Sequence [Leaf events_a, Leaf events_b, Leaf hists])),
                    (''config'', Leaf config)])
   \<and> fst (env docker_slc7 resolving fresh_world) = Inr [(''PATH'', ''/bin'')]
   \<and> length (filter is_stagein_copy
        (events (snd (stagein docker_slc7 resolving no_hooks ''/tmp/law'' fresh_world)))) = 4
   \<and> length (filter is_stagein_copy
        (events (snd (stagein docker_slc7 resolving no_hooks ''/tmp/law'' fresh_world)))) \<noteq> 5"
proof -
  obtain w1 where e: "env docker_slc7 resolving fresh_world = (Inr [(''PATH'', ''/bin'')], w1)"
    by (simp add: env_def Let_def docker_slc7_def resolving_def fresh_world_def)
  from env_keeps_world[OF e] have k: "events w1 = []" "files w1 = store"
    by (simp_all add: fresh_world_def)
  have "\<forall>t\<in>set (leaves collection_and_leaf). files w1 (path t) \<noteq> None"
    by (simp add: k collection_and_leaf_def store_def events_a_def events_b_def
        hists_def config_def)
  from copy_in_leaves_all[OF this, of "staged_leaf (child_path ''/tmp/law'' (stagein_dir_name no_hooks))"]
  obtain w' where w': "copy_in_leaves (staged_leaf (child_path ''/tmp/law'' (stagein_dir_name no_hooks)))
        (leaves collection_and_leaf) w1 = (Inr (), w')"
    "events w' = events w1 @ map (\<lambda>t. StageInCopy (path t)
        (local_path (staged_leaf (child_path ''/tmp/law'' (stagein_dir_name no_hooks)) t)))
        (leaves collection_and_leaf)"
    by blast
  have h: "stagein_dir_name no_hooks \<noteq> []" "sandbox_stagein no_hooks"
    "sandbox_inputs no_hooks [(''PATH'', ''/bin'')] = Some collection_and_leaf"
    by (simp_all add: no_hooks_def)
  have tf: "tuple_free collection_and_leaf" by (simp add: collection_and_leaf_def)
  have "events (snd (stagein docker_slc7 resolving no_hooks ''/tmp/law'' fresh_world)) =
        events w' @ [StagedIn (length (listdir no_hooks (child_path ''/tmp/law'' (stagein_dir_name no_hooks))
                                         (files w')))]"
    by (simp add: stagein_resolved[OF h(1,2) e h(3)] tf w'(1) emit_def)
  then have "length (filter is_stagein_copy
        (events (snd (stagein docker_slc7 resolving no_hooks ''/tmp/law'' fresh_world)))) =
        length (leaves collection_and_leaf)"
    using w'(2) k(1) by (simp add: filter_stagein_copies)
  moreover have "length (leaves collection_and_leaf) = 4"
    by (simp add: collection_and_leaf_def)
  ultimately show ?thesis using h(3) e by (simp add: collection_and_leaf_def)
qed

text \<open>
  C5 (amended): \<open>stagein\<close>, when the staging directory is configured and the mask is
  set, first resolves the environment of the task; when that raises, it raises the
  same error before any copy. Otherwise, for inputs without a tuple of which every leaf
  exists, it puts the members of a flat collection into the queue in place of the
  collection and copies every leaf once, in order: it returns the staging data and has
  made exactly as many copies as the structure has leaves, the members of collections
  included. For a mapping of two keys with a flat collection of three leaves under the
  first, that is three plus the number of leaves under the second key: four when it
  holds one leaf, five when it holds two, never two. For inputs with a tuple it raises
  \<open>AttributeError\<close> before any copy.
\<close>

theorem stagein_copies_every_leaf:
  "stagein_dir_name p \<noteq> [] \<and> sandbox_stagein p \<longrightarrow>
     (\<forall>e w1. env sb be w = (Inl e, w1) \<longrightarrow>
        stagein sb be p tmp_dir w = (Inl e, w1) \<and> events w1 = events w \<and> files w1 = files w)
   \<and> (\<forall>ev w1 s. env sb be w = (Inr ev, w1) \<and> sandbox_inputs p ev = Some s \<and> \<not> tuple_free s \<longrightarrow>
        stagein sb be p tmp_dir w = (Inl AttributeError, w1) \<and> events w1 = events w
        \<and> files w1 = files w)
   \<and> (\<forall>ev w1 s. env sb be w = (Inr ev, w1) \<and> sandbox_inputs p ev = Some s \<and> tuple_free s
          \<and> (\<forall>t\<in>set (leaves s). files w (path t) \<noteq> None) \<longrightarrow>
        (\<exists>info w'. stagein sb be p tmp_dir w = (Inr (Some info), w')
           \<and> targets info = s
           \<and> events w' = events w @
               map (\<lambda>t. StageInCopy (path t)
                      (child_path (child_path tmp_dir (stagein_dir_name p)) (unique_basename t))) (leaves s)
               @ [StagedIn (length (listdir p (child_path tmp_dir (stagein_dir_name p)) (files w')))]
           \<and> length (filter is_stagein_copy (events w')) =
               length (filter is_stagein_copy (events w)) + length (leaves s)
           \<and> (\<forall>k1 c k2 r. s = Mapping [(k1, Collection c), (k2, r)] \<and> length (leaves c) = 3 \<longrightarrow>
                length (filter is_stagein_copy (events w')) =
                  length (filter is_stagein_copy (events w)) + 3 + length (leaves r))))"
proof (intro impI conjI allI)
  fix e w1
  assume h: "stagein_dir_name p \<noteq> [] \<and> sandbox_stagein p" and e: "env sb be w = (Inl e, w1)"
  from h e show "stagein sb be p tmp_dir w = (Inl e, w1)" by (simp add: stagein_raising)
  from env_keeps_world[OF e] show "events w1 = events w" and "files w1 = files w" by simp_all
next
  fix ev w1 s
  assume h: "stagein_dir_name p \<noteq> [] \<and> sandbox_stagein p"
    and a: "env sb be w = (Inr ev, w1) \<and> sandbox_inputs p ev = Some s \<and> \<not> tuple_free s"
  from h a show "stagein sb be p tmp_dir w = (Inl AttributeError, w1)"
    by (simp add: stagein_resolved)
  from a env_keeps_world[of sb be w "Inr ev" w1]
  show "events w1 = events w" and "files w1 = files w" by simp_all
next
  fix ev w1 s
  assume h: "stagein_dir_name p \<noteq> [] \<and> sandbox_stagein p"
    and a: "env sb be w = (Inr ev, w1) \<and> sandbox_inputs p ev = Some s \<and> tuple_free s
          \<and> (\<forall>t\<in>set (leaves s). files w (path t) \<noteq> None)"
  let ?d = "child_path tmp_dir (stagein_dir_name p)"
  from a env_keeps_world[of sb be w "Inr ev" w1]
  have k: "events w1 = events w" "files w1 = files w" by simp_all
  with a have "\<forall>t\<in>set (leaves s). files w1 (path t) \<noteq> None" by simp
  from copy_in_leaves_all[OF this, of "staged_leaf ?d"]
  obtain w2 where w2: "copy_in_leaves (staged_leaf ?d) (leaves s) w1 = (Inr (), w2)"
    "events w2 = events w1 @ map (\<lambda>t. StageInCopy (path t) (local_path (staged_leaf ?d t))) (leaves s)"
    by blast
  let ?info = "\<lparr>targets = s, stage_dir = ?d, staged_targets = struct_map (staged_leaf ?d) s\<rparr>"
  let ?w' = "emit (StagedIn (length (listdir p ?d (files w2)))) w2"
  have r: "stagein sb be p tmp_dir w = (Inr (Some ?info), ?w')"
    using h a w2(1) by (simp add: stagein_resolved)
  have f: "files ?w' = files w2" by (simp add: emit_def)
  have e: "events ?w' = events w @
               map (\<lambda>t. StageInCopy (path t)
                      (child_path (child_path tmp_dir (stagein_dir_name p)) (unique_basename t))) (leaves s)
               @ [StagedIn (length (listdir p ?d (files ?w')))]"
    using w2(2) k(1) by (simp add: emit_def staged_leaf_def)
  have n: "length (filter is_stagein_copy (events ?w')) =
               length (filter is_stagein_copy (events w)) + length (leaves s)"
    by (simp add: e filter_stagein_copies)
  have m: "\<forall>k1 c k2 r. s = Mapping [(k1, Collection c), (k2, r)] \<and> length (leaves c) = 3 \<longrightarrow>
                length (filter is_stagein_copy (events ?w')) =
                  length (filter is_stagein_copy (events w)) + 3 + length (leaves r)"
    using n by auto
  have t: "targets ?info = s" by simp
  show "\<exists>info w'. stagein sb be p tmp_dir w = (Inr (Some info), w')
           \<and> targets info = s
           \<and> events w' = events w @
               map (\<lambda>t. StageInCopy (path t)
                      (child_path (child_path tmp_dir (stagein_dir_name p)) (unique_basename t))) (leaves s)
               @ [StagedIn (length (listdir p (child_path tmp_dir (stagein_dir_name p)) (files w')))]
           \<and> length (filter is_stagein_copy (events w')) =
               length (filter is_stagein_copy (events w)) + length (leaves s)
           \<and> (\<forall>k1 c k2 r. s = Mapping [(k1, Collection c), (k2, r)] \<and> length (leaves c) = 3 \<longrightarrow>
                length (filter is_stagein_copy (events w')) =
                  length (filter is_stagein_copy (events w)) + 3 + length (leaves r))"
    using r t e n m by blast
qed

text \<open>
  The mapping of the examples, staged below \<open>/tmp/law/stagein\<close>: four copies into
  three files. With the backend that raises, the same call raises and copies nothing;
  so does the call for a tuple of inputs.
\<close>

theorem stagein_copies_every_leaf_witness:
  "stagein_dir_name no_hooks \<noteq> [] \<and> sandbox_stagein no_hooks
   \<and> fst (env docker_slc7 resolving fresh_world) = Inr [(''PATH'', ''/bin'')]
   \<and> sandbox_inputs no_hooks [(''PATH'', ''/bin'')] = Some collection_and_leaf
   \<and> tuple_free collection_and_leaf
   \<and> list_all (\<lambda>t. files fresh_world (path t) \<noteq> None) (leaves collection_and_leaf)
   \<and> events (snd (stagein docker_slc7 resolving no_hooks ''/tmp/law'' fresh_world)) =
       [StageInCopy ''/store/a/events.root'' ''/tmp/law/stagein/events.root'',
        StageInCopy ''/store/b/events.root'' ''/tmp/law/stagein/events.root'',
        StageInCopy ''/store/hists.root'' ''/tmp/law/stagein/1f_hists.root'',
        StageInCopy ''/store/config.json'' ''/tmp/law/stagein/2a_config.json'',
        StagedIn 3]
   \<and> fst (env docker_slc7 raising fresh_world) = Inl (External ''no such image'')
   \<and> fst (stagein docker_slc7 raising no_hooks ''/tmp/law'' fresh_world) =
       Inl (External ''no such image'')
   \<and> events (snd (stagein docker_slc7 raising no_hooks ''/tmp/law'' fresh_world)) = []
   \<and> sandbox_inputs tuple_inputs [(''PATH'', ''/bin'')] = Some (Tuple [Leaf hists, Leaf config])
   \<and> \<not> tuple_free (Tuple [Leaf hists, Leaf config])
   \<and> fst (stagein docker_slc7 resolving tuple_inputs ''/tmp/law'' fresh_world) = Inl AttributeError
   \<and> events (snd (stagein docker_slc7 resolving tuple_inputs ''/tmp/law'' fresh_world)) = []"
proof -
  have h: "stagein_dir_name no_hooks \<noteq> [] \<and> sandbox_stagein no_hooks"
    by (simp add: no_hooks_def)
  have h3: "sandbox_inputs no_hooks [(''PATH'', ''/bin'')] = Some collection_and_leaf"
    by (simp add: no_hooks_def)
  have tf: "tuple_free collection_and_leaf" by (simp add: collection_and_leaf_def)
  have h4: "\<forall>t\<in>set (leaves collection_and_leaf). files fresh_world (path t) \<noteq> None"
    by (simp add: collection_and_leaf_def fresh_world_def store_def events_a_def events_b_def
        hists_def config_def)
  obtain w1 where e1: "env docker_slc7 resolving fresh_world = (Inr [(''PATH'', ''/bin'')], w1)"
    by (simp add: env_def Let_def docker_slc7_def resolving_def fresh_world_def)
  obtain w2 where e2: "env docker_slc7 raising fresh_world = (Inl (External ''no such image''), w2)"
    by (simp add: env_def Let_def docker_slc7_def raising_def fresh_world_def)
  note ok = stagein_copies_every_leaf[of no_hooks docker_slc7 resolving fresh_world "''/tmp/law''"]
  note bad = stagein_copies_every_leaf[of no_hooks docker_slc7 raising fresh_world "''/tmp/law''"]
  from ok h e1 h3 tf h4
  obtain info w' where r: "stagein docker_slc7 resolving no_hooks ''/tmp/law'' fresh_world =
        (Inr (Some info), w')"
    and ev: "events w' = events fresh_world @
               map (\<lambda>t. StageInCopy (path t)
                      (child_path (child_path ''/tmp/law'' (stagein_dir_name no_hooks)) (unique_basename t)))
                 (leaves collection_and_leaf)
               @ [StagedIn (length (listdir no_hooks (child_path ''/tmp/law'' (stagein_dir_name no_hooks))
                                      (files w')))]"
    by blast
  have a: "events (snd (stagein docker_slc7 resolving no_hooks ''/tmp/law'' fresh_world)) =
       [StageInCopy ''/store/a/events.root'' ''/tmp/law/stagein/events.root'',
        StageInCopy ''/store/b/events.root'' ''/tmp/law/stagein/events.root'',
        StageInCopy ''/store/hists.root'' ''/tmp/law/stagein/1f_hists.root'',
        StageInCopy ''/store/config.json'' ''/tmp/law/stagein/2a_config.json'',
        StagedIn 3]"
    using r ev
    by (simp add: collection_and_leaf_def fresh_world_def no_hooks_def events_a_def events_b_def
        hists_def config_def child_path_def)
  from bad h e2
  have b: "stagein docker_slc7 raising no_hooks ''/tmp/law'' fresh_world =
             (Inl (External ''no such image''), w2)"
    and b2: "events w2 = events fresh_world"
    by blast+
  have ht: "stagein_dir_name tuple_inputs \<noteq> [] \<and> sandbox_stagein tuple_inputs"
    by (simp add: tuple_inputs_def no_hooks_def)
  have ht3: "sandbox_inputs tuple_inputs [(''PATH'', ''/bin'')] = Some (Tuple [Leaf hists, Leaf config])"
    by (simp add: tuple_inputs_def)
  have ntf: "\<not> tuple_free (Tuple [Leaf hists, Leaf config])" by simp
  note tup = stagein_copies_every_leaf[of tuple_inputs docker_slc7 resolving fresh_world "''/tmp/law''"]
  from tup ht e1 ht3 ntf
  have c: "stagein docker_slc7 resolving tuple_inputs ''/tmp/law'' fresh_world =
             (Inl AttributeError, w1)"
    and c2: "events w1 = events fresh_world"
    by blast+
  from h h3 tf h4 e1 e2 a b b2 ht3 ntf c c2 show ?thesis
    by (simp add: list_all_iff fresh_world_def)
qed

subsection \<open>Stage-out\<close>

lemma prepare_stageout_Some:
  assumes "prepare_stageout sb be p tmp_dir w = (Inr (Some info), w')"
  shows "staged_targets info = struct_map (staged_leaf (stage_dir info)) (targets info)"
    and "stage_dir info = child_path tmp_dir (stageout_dir_name p)"
    and "tuple_free (targets info)"
  using assms
  by (auto simp: prepare_stageout_def Let_def create_staged_target_struct_DirTarget
      split: if_splits option.splits prod.splits sum.splits)

lemma stageout_leaves:
  assumes "staged_targets info = struct_map (staged_leaf (stage_dir info)) (targets info)"
  shows "stageout p info w =
         (case copy_out_leaves (staged_leaf (stage_dir info)) (leaves (targets info))
                 (emit StageOut w) of
            (Inl e, w1) \<Rightarrow> (Inl e, w1)
          | (Inr u, w1) \<Rightarrow>
              (Inr (), emit (StagedOut (length (listdir p (stage_dir info) (files w1)))) w1))"
  by (simp add: stageout_def assms stageout_copy_struct)

text \<open>
  C6: the stage-out data are those \<open>prepare_stageout\<close> built, with two leaves
  \<open>a\<close> and \<open>b\<close> whose staged files are \<open>sa\<close> and \<open>sb\<close>; after the subprocess
  exactly one of the staged files exists. The temporary directory is fresh: the first
  output does not lie below it (the copy to its path comes before the second staged
  file is looked for). Then \<open>stageout\<close> returns without error, logs
  exactly one warning, for the absent leaf, and makes exactly one copy, of the present
  staged file to the path of its original, and ends with the number of files in the
  stage-out directory. The run goes on to the after-run hook: when
  the subprocess of a run left the world \<open>w\<close>, the result of the run is that of the
  hook, and it is a success when the hook is not callable.
\<close>

theorem stageout_one_leaf_absent:
  assumes "prepare_stageout sbx be p tmp_dir wa = (Inr (Some info), wb)"
    and "leaves (targets info) = [a, b]"
    and "sa = staged_leaf (stage_dir info) a"
    and "sb = staged_leaf (stage_dir info) b"
    and "local_exists sa (files w) \<noteq> local_exists sb (files w)"
    and "\<not> prefix tmp_dir (path a)"
  shows "\<exists>w'. stageout p info w = (Inr (), w')
     \<and> length (filter is_warning (events w')) = length (filter is_warning (events w)) + 1
     \<and> length (filter is_stageout_copy (events w')) = length (filter is_stageout_copy (events w)) + 1
     \<and> (local_exists sa (files w) \<longrightarrow>
          events w' = events w @ [StageOut, StageOutCopy (local_path sa) (path a),
                                  StageOutWarning (local_path sb),
                                  StagedOut (length (listdir p (stage_dir info) (files w')))]
          \<and> files w' = (files w)(path a := files w (local_path sa)))
     \<and> (local_exists sb (files w) \<longrightarrow>
          events w' = events w @ [StageOut, StageOutWarning (local_path sa),
                                  StageOutCopy (local_path sb) (path b),
                                  StagedOut (length (listdir p (stage_dir info) (files w')))]
          \<and> files w' = (files w)(path b := files w (local_path sb)))
     \<and> finish_run p (Some info) w = call_hook (sandbox_after_run p) AfterRun w'
     \<and> (sandbox_after_run p = None \<longrightarrow> finish_run p (Some info) w = (Inr (), w'))
     \<and> (prepare_run sbx be p tmp_dir w0 = (Inr (cmd, Some info), w1)
          \<and> run_in_context sbx be p cmd w1 = (Inr (), w) \<longrightarrow>
          run sbx be p tmp_dir w0 = call_hook (sandbox_after_run p) AfterRun w')"
proof -
  let ?f = "staged_leaf (stage_dir info)"
  let ?w = "emit StageOut w"
  note so = stageout_leaves[OF prepare_stageout_Some(1)[OF assms(1)], of p w, unfolded assms(2)]
  have fw: "files ?w = files w" and ew: "events ?w = events w @ [StageOut]"
    by (simp_all add: emit_def)
  have "local_path sb = tmp_dir @ (''/'' @ stageout_dir_name p @ ''/'' @ unique_basename b)"
    using prepare_stageout_Some(2)[OF assms(1)] assms(4)
    by (simp add: staged_leaf_def child_path_def)
  then have "prefix tmp_dir (local_path sb)" by (simp only: prefixI)
  with assms(6) have ne: "path a \<noteq> local_path sb" by auto
  show ?thesis
  proof (cases "local_exists sa (files w)")
    case True
    with assms(5) have nb: "\<not> local_exists sb (files w)" by simp
    from True obtain c where c: "files w (local_path sa) = Some c"
      by (auto simp: local_exists_def)
    let ?w1 = "emit (StageOutCopy (local_path sa) (path a)) (?w\<lparr>files := (files w)(path a \<mapsto> c)\<rparr>)"
    have nb1: "\<not> local_exists sb (files ?w1)"
      using nb ne by (simp add: local_exists_def emit_def)
    let ?w2 = "emit (StageOutWarning (local_path sb)) ?w1"
    let ?w' = "emit (StagedOut (length (listdir p (stage_dir info) (files ?w2)))) ?w2"
    have cp: "copy_out_leaves ?f [a, b] ?w = (Inr (), ?w2)"
      using True c nb1 assms(3,4) by (simp add: fw copy_from_local_def)
    have r: "stageout p info w = (Inr (), ?w')"
      unfolding so cp by simp
    have f: "files ?w' = (files w)(path a := files w (local_path sa))"
      using c by (simp add: emit_def)
    have f2: "files ?w' = files ?w2" by (simp add: emit_def)
    have e: "events ?w' = events w @ [StageOut, StageOutCopy (local_path sa) (path a),
                                  StageOutWarning (local_path sb),
                                  StagedOut (length (listdir p (stage_dir info) (files ?w')))]"
      unfolding f2 by (simp add: emit_def)
    have n1: "length (filter is_warning (events ?w')) = length (filter is_warning (events w)) + 1"
      and n2: "length (filter is_stageout_copy (events ?w')) =
               length (filter is_stageout_copy (events w)) + 1"
      by (simp_all add: emit_def)
    have fin: "finish_run p (Some info) w = call_hook (sandbox_after_run p) AfterRun ?w'"
      by (simp add: finish_run_def r)
    have fin0: "sandbox_after_run p = None \<longrightarrow> finish_run p (Some info) w = (Inr (), ?w')"
      unfolding fin by (simp add: call_hook_def)
    have rn: "prepare_run sbx be p tmp_dir w0 = (Inr (cmd, Some info), w1)
          \<and> run_in_context sbx be p cmd w1 = (Inr (), w) \<longrightarrow>
          run sbx be p tmp_dir w0 = call_hook (sandbox_after_run p) AfterRun ?w'"
      using fin by (simp add: run_def)
    have "stageout p info w = (Inr (), ?w')
     \<and> length (filter is_warning (events ?w')) = length (filter is_warning (events w)) + 1
     \<and> length (filter is_stageout_copy (events ?w')) = length (filter is_stageout_copy (events w)) + 1
     \<and> (local_exists sa (files w) \<longrightarrow>
          events ?w' = events w @ [StageOut, StageOutCopy (local_path sa) (path a),
                                  StageOutWarning (local_path sb),
                                  StagedOut (length (listdir p (stage_dir info) (files ?w')))]
          \<and> files ?w' = (files w)(path a := files w (local_path sa)))
     \<and> (local_exists sb (files w) \<longrightarrow>
          events ?w' = events w @ [StageOut, StageOutWarning (local_path sa),
                                  StageOutCopy (local_path sb) (path b),
                                  StagedOut (length (listdir p (stage_dir info) (files ?w')))]
          \<and> files ?w' = (files w)(path b := files w (local_path sb)))
     \<and> finish_run p (Some info) w = call_hook (sandbox_after_run p) AfterRun ?w'
     \<and> (sandbox_after_run p = None \<longrightarrow> finish_run p (Some info) w = (Inr (), ?w'))
     \<and> (prepare_run sbx be p tmp_dir w0 = (Inr (cmd, Some info), w1)
          \<and> run_in_context sbx be p cmd w1 = (Inr (), w) \<longrightarrow>
          run sbx be p tmp_dir w0 = call_hook (sandbox_after_run p) AfterRun ?w')"
      using r n1 n2 e f fin fin0 rn nb by blast
    then show ?thesis by (rule exI)
  next
    case False
    with assms(5) have eb: "local_exists sb (files w)" by simp
    then obtain c where c: "files w (local_path sb) = Some c"
      by (auto simp: local_exists_def)
    let ?w1 = "emit (StageOutWarning (local_path sa)) ?w"
    have eb1: "local_exists sb (files ?w1)" using eb by (simp add: emit_def)
    let ?w2 = "emit (StageOutCopy (local_path sb) (path b)) (?w1\<lparr>files := (files w)(path b \<mapsto> c)\<rparr>)"
    let ?w' = "emit (StagedOut (length (listdir p (stage_dir info) (files ?w2)))) ?w2"
    have cp: "copy_out_leaves ?f [a, b] ?w = (Inr (), ?w2)"
      using False c eb1 assms(3,4) by (simp add: fw copy_from_local_def emit_def)
    have r: "stageout p info w = (Inr (), ?w')"
      unfolding so cp by simp
    have f: "files ?w' = (files w)(path b := files w (local_path sb))"
      using c by (simp add: emit_def)
    have f2: "files ?w' = files ?w2" by (simp add: emit_def)
    have e: "events ?w' = events w @ [StageOut, StageOutWarning (local_path sa),
                                  StageOutCopy (local_path sb) (path b),
                                  StagedOut (length (listdir p (stage_dir info) (files ?w')))]"
      unfolding f2 by (simp add: emit_def)
    have n1: "length (filter is_warning (events ?w')) = length (filter is_warning (events w)) + 1"
      and n2: "length (filter is_stageout_copy (events ?w')) =
               length (filter is_stageout_copy (events w)) + 1"
      by (simp_all add: emit_def)
    have fin: "finish_run p (Some info) w = call_hook (sandbox_after_run p) AfterRun ?w'"
      by (simp add: finish_run_def r)
    have fin0: "sandbox_after_run p = None \<longrightarrow> finish_run p (Some info) w = (Inr (), ?w')"
      unfolding fin by (simp add: call_hook_def)
    have rn: "prepare_run sbx be p tmp_dir w0 = (Inr (cmd, Some info), w1)
          \<and> run_in_context sbx be p cmd w1 = (Inr (), w) \<longrightarrow>
          run sbx be p tmp_dir w0 = call_hook (sandbox_after_run p) AfterRun ?w'"
      using fin by (simp add: run_def)
    have "stageout p info w = (Inr (), ?w')
     \<and> length (filter is_warning (events ?w')) = length (filter is_warning (events w)) + 1
     \<and> length (filter is_stageout_copy (events ?w')) = length (filter is_stageout_copy (events w)) + 1
     \<and> (local_exists sa (files w) \<longrightarrow>
          events ?w' = events w @ [StageOut, StageOutCopy (local_path sa) (path a),
                                  StageOutWarning (local_path sb),
                                  StagedOut (length (listdir p (stage_dir info) (files ?w')))]
          \<and> files ?w' = (files w)(path a := files w (local_path sa)))
     \<and> (local_exists sb (files w) \<longrightarrow>
          events ?w' = events w @ [StageOut, StageOutWarning (local_path sa),
                                  StageOutCopy (local_path sb) (path b),
                                  StagedOut (length (listdir p (stage_dir info) (files ?w')))]
          \<and> files ?w' = (files w)(path b := files w (local_path sb)))
     \<and> finish_run p (Some info) w = call_hook (sandbox_after_run p) AfterRun ?w'
     \<and> (sandbox_after_run p = None \<longrightarrow> finish_run p (Some info) w = (Inr (), ?w'))
     \<and> (prepare_run sbx be p tmp_dir w0 = (Inr (cmd, Some info), w1)
          \<and> run_in_context sbx be p cmd w1 = (Inr (), w) \<longrightarrow>
          run sbx be p tmp_dir w0 = call_hook (sandbox_after_run p) AfterRun ?w')"
      using r n1 n2 e f fin fin0 rn False by blast
    then show ?thesis by (rule exI)
  qed
qed

text \<open>
  Two declared outputs, of which the subprocess has produced the first: one copy, one
  warning, and the run ends with the after-run hook.
\<close>

theorem stageout_one_leaf_absent_witness:
  "fst (prepare_stageout docker_slc7 resolving two_outputs ''/tmp/law'' empty_world) =
     Inr (Some two_outputs_info)
   \<and> leaves (targets two_outputs_info) = [out_hists, out_log]
   \<and> local_exists (staged_leaf ''/tmp/law/stageout'' out_hists) (files after_subprocess)
   \<and> \<not> local_exists (staged_leaf ''/tmp/law/stageout'' out_log) (files after_subprocess)
   \<and> \<not> prefix ''/tmp/law'' (path out_hists)
   \<and> fst (stageout two_outputs two_outputs_info after_subprocess) = Inr ()
   \<and> events (snd (stageout two_outputs two_outputs_info after_subprocess)) =
       [StageOut, StageOutCopy ''/tmp/law/stageout/7c_hists.root'' ''/store/out/hists.root'',
        StageOutWarning ''/tmp/law/stageout/9d_log.txt'', StagedOut 1]
   \<and> files (snd (stageout two_outputs two_outputs_info after_subprocess)) ''/store/out/hists.root''
       = Some ''H''
   \<and> fst (finish_run two_outputs (Some two_outputs_info) after_subprocess) = Inr ()"
proof -
  obtain wb where h1: "prepare_stageout docker_slc7 resolving two_outputs ''/tmp/law'' empty_world =
      (Inr (Some two_outputs_info), wb)"
    by (simp add: prepare_stageout_def two_outputs_def two_outputs_info_def Let_def
        env_def docker_slc7_def resolving_def empty_world_def tuple_free.simps
        create_staged_target_struct_DirTarget staged_leaf_def child_path_def
        out_hists_def out_log_def)
  have h2: "leaves (targets two_outputs_info) = [out_hists, out_log]"
    by (simp add: two_outputs_info_def)
  have h3: "staged_leaf ''/tmp/law/stageout'' out_hists =
            staged_leaf (stage_dir two_outputs_info) out_hists"
    and h4: "staged_leaf ''/tmp/law/stageout'' out_log =
            staged_leaf (stage_dir two_outputs_info) out_log"
    by (simp_all add: two_outputs_info_def)
  have e1: "local_exists (staged_leaf ''/tmp/law/stageout'' out_hists) (files after_subprocess)"
    and e2: "\<not> local_exists (staged_leaf ''/tmp/law/stageout'' out_log) (files after_subprocess)"
    by (simp_all add: local_exists_def staged_leaf_def child_path_def out_hists_def out_log_def
        after_subprocess_def)
  from e1 e2 have h5: "local_exists (staged_leaf ''/tmp/law/stageout'' out_hists) (files after_subprocess)
      \<noteq> local_exists (staged_leaf ''/tmp/law/stageout'' out_log) (files after_subprocess)"
    by simp
  have h6: "\<not> prefix ''/tmp/law'' (path out_hists)"
    by (simp add: out_hists_def)
  from stageout_one_leaf_absent[OF h1 h2 h3 h4 h5 h6]
  obtain w' where w': "stageout two_outputs two_outputs_info after_subprocess = (Inr (), w')"
    "events w' = events after_subprocess @
       [StageOut, StageOutCopy (local_path (staged_leaf ''/tmp/law/stageout'' out_hists)) (path out_hists),
        StageOutWarning (local_path (staged_leaf ''/tmp/law/stageout'' out_log)),
        StagedOut (length (listdir two_outputs (stage_dir two_outputs_info) (files w')))]"
    "files w' = (files after_subprocess)(path out_hists :=
        files after_subprocess (local_path (staged_leaf ''/tmp/law/stageout'' out_hists)))"
    "finish_run two_outputs (Some two_outputs_info) after_subprocess =
       call_hook (sandbox_after_run two_outputs) AfterRun w'"
    using e1 by blast
  have "fst (call_hook (sandbox_after_run two_outputs) AfterRun w') = Inr ()"
    by (simp add: call_hook_def two_outputs_def)
  then have "fst (finish_run two_outputs (Some two_outputs_info) after_subprocess) = Inr ()"
    by (simp only: w'(4))
  moreover have "listdir two_outputs (stage_dir two_outputs_info) (files w') = [''7c_hists.root'']"
    by (simp add: two_outputs_def)
  ultimately show ?thesis using h1 h2 e1 e2 h6 w'(1,2,3)
    by (simp add: staged_leaf_def child_path_def out_hists_def out_log_def after_subprocess_def)
qed

subsection \<open>The phases of a run and the events they log\<close>

lemma copy_in_leaves_events:
  "copy_in_leaves f ts w = (r, w') \<Longrightarrow>
   \<exists>evs. events w' = events w @ evs \<and> list_all is_prepare_event evs"
proof (induction ts arbitrary: w)
  case Nil
  then show ?case by simp
next
  case (Cons t ts)
  show ?case
  proof (cases "copy_to_local t (f t) (files w)")
    case (Inl e)
    with Cons.prems show ?thesis by simp
  next
    case (Inr fs)
    let ?w1 = "emit (StageInCopy (path t) (local_path (f t))) (w\<lparr>files := fs\<rparr>)"
    from Cons.prems Inr have "copy_in_leaves f ts ?w1 = (r, w')" by simp
    from Cons.IH[OF this] obtain evs where
      "events w' = events ?w1 @ evs" "list_all is_prepare_event evs" by blast
    then have "events w' = events w @ (StageInCopy (path t) (local_path (f t)) # evs)
               \<and> list_all is_prepare_event (StageInCopy (path t) (local_path (f t)) # evs)"
      by (simp add: emit_def)
    then show ?thesis by blast
  qed
qed

lemma copy_out_leaves_events:
  "copy_out_leaves f ts w = (r, w') \<Longrightarrow>
   r = Inr () \<and> (\<exists>evs. events w' = events w @ evs \<and> list_all is_stageout_event evs)"
proof (induction ts arbitrary: w)
  case Nil
  then show ?case by simp
next
  case (Cons t ts)
  show ?case
  proof (cases "local_exists (f t) (files w)")
    case True
    then obtain c where c: "files w (local_path (f t)) = Some c"
      by (auto simp: local_exists_def)
    let ?w1 = "emit (StageOutCopy (local_path (f t)) (path t)) (w\<lparr>files := (files w)(path t \<mapsto> c)\<rparr>)"
    from Cons.prems True c have "copy_out_leaves f ts ?w1 = (r, w')"
      by (simp add: copy_from_local_def)
    from Cons.IH[OF this] obtain evs where
      "r = Inr ()" "events w' = events ?w1 @ evs" "list_all is_stageout_event evs" by blast
    then have "r = Inr () \<and> events w' = events w @ (StageOutCopy (local_path (f t)) (path t) # evs)
               \<and> list_all is_stageout_event (StageOutCopy (local_path (f t)) (path t) # evs)"
      by (simp add: emit_def)
    then show ?thesis by blast
  next
    case False
    let ?w1 = "emit (StageOutWarning (local_path (f t))) w"
    from Cons.prems False have "copy_out_leaves f ts ?w1 = (r, w')" by simp
    from Cons.IH[OF this] obtain evs where
      "r = Inr ()" "events w' = events ?w1 @ evs" "list_all is_stageout_event evs" by blast
    then have "r = Inr () \<and> events w' = events w @ (StageOutWarning (local_path (f t)) # evs)
               \<and> list_all is_stageout_event (StageOutWarning (local_path (f t)) # evs)"
      by (simp add: emit_def)
    then show ?thesis by blast
  qed
qed

lemma call_hook_events:
  "call_hook hook ev w = (r, w') \<Longrightarrow>
   events w' = events w @ (if hook = None then [] else [ev])"
  by (auto simp: call_hook_def emit_def split: option.splits sum.splits)

lemma stagein_events:
  assumes "stagein sb be p tmp_dir w = (r, w')"
  shows "\<exists>evs. events w' = events w @ evs \<and> list_all is_prepare_event evs"
proof (cases "stagein_dir_name p = [] \<or> \<not> sandbox_stagein p")
  case True
  with assms have "w' = w" by (auto simp: stagein_def split: if_splits)
  then show ?thesis by simp
next
  case False
  then have h: "stagein_dir_name p \<noteq> []" "sandbox_stagein p" by simp_all
  obtain r1 w1 where e: "env sb be w = (r1, w1)" by (cases "env sb be w")
  from env_keeps_world[OF e] have k: "events w1 = events w" by simp
  show ?thesis
  proof (cases r1)
    case (Inl err)
    with assms e h have "w' = w1" by (simp add: stagein_raising)
    with k show ?thesis by simp
  next
    case (Inr ev)
    show ?thesis
    proof (cases "sandbox_inputs p ev")
      case None
      with assms e h Inr have "w' = w1" by (simp add: stagein_def)
      with k show ?thesis by simp
    next
      case (Some s)
      let ?d = "child_path tmp_dir (stagein_dir_name p)"
      note res = stagein_resolved[OF h e[unfolded Inr] Some, of tmp_dir]
      show ?thesis
      proof (cases "tuple_free s")
        case False
        with assms res have "w' = w1" by simp
        with k show ?thesis by simp
      next
        case True
        obtain r2 w2 where c: "copy_in_leaves (staged_leaf ?d) (leaves s) w1 = (r2, w2)"
          by (cases "copy_in_leaves (staged_leaf ?d) (leaves s) w1")
        from copy_in_leaves_events[OF c] obtain evs where
          e2: "events w2 = events w1 @ evs" "list_all is_prepare_event evs" by blast
        show ?thesis
        proof (cases r2)
          case (Inl err)
          with assms res True c have "w' = w2" by simp
          with e2 k show ?thesis by auto
        next
          case (Inr u)
          with assms res True c
          have "w' = emit (StagedIn (length (listdir p ?d (files w2)))) w2" by simp
          with e2 k have "events w' = events w @ (evs @ [StagedIn (length (listdir p ?d (files w2)))])
               \<and> list_all is_prepare_event (evs @ [StagedIn (length (listdir p ?d (files w2)))])"
            by (simp add: emit_def)
          then show ?thesis by blast
        qed
      qed
    qed
  qed
qed

lemma prepare_stageout_keeps:
  assumes "prepare_stageout sb be p tmp_dir w = (r, w')"
  shows "events w' = events w \<and> files w' = files w"
proof (cases "stageout_dir_name p = [] \<or> \<not> sandbox_stageout p")
  case True
  with assms have "w' = w" by (auto simp: prepare_stageout_def split: if_splits)
  then show ?thesis by simp
next
  case False
  obtain r1 w1 where e: "env sb be w = (r1, w1)" by (cases "env sb be w")
  from assms False e have "w' = w1"
    by (auto simp: prepare_stageout_def Let_def split: sum.splits option.splits)
  with env_keeps_world[OF e] show ?thesis by simp
qed

lemma prepare_run_events:
  assumes "prepare_run sb be p tmp_dir w = (r, w')"
  shows "\<exists>evs. events w' = events w @ evs \<and> list_all is_prepare_event evs"
proof -
  obtain r1 w1 where h: "call_hook (sandbox_before_run p) BeforeRun w = (r1, w1)"
    by (cases "call_hook (sandbox_before_run p) BeforeRun w")
  from call_hook_events[OF h]
  have e1: "events w1 = events w @ (if sandbox_before_run p = None then [] else [BeforeRun])" .
  show ?thesis
  proof (cases r1)
    case (Inl e)
    with assms h have "w' = w1" by (simp add: prepare_run_def)
    with e1 show ?thesis by auto
  next
    case (Inr u)
    obtain r2 w2 where s: "stagein sb be p tmp_dir w1 = (r2, w2)"
      by (cases "stagein sb be p tmp_dir w1")
    from stagein_events[OF s] obtain evs where
      e2: "events w2 = events w1 @ evs" "list_all is_prepare_event evs" by blast
    have "events w' = events w2"
    proof (cases r2)
      case (Inl e)
      with assms h \<open>r1 = Inr u\<close> s show ?thesis by (simp add: prepare_run_def)
    next
      case (Inr si)
      let ?w3 = "if si \<noteq> None then w2\<lparr>stagein_info := si\<rparr> else w2"
      obtain r4 w4 where o: "prepare_stageout sb be p tmp_dir ?w3 = (r4, w4)"
        by (cases "prepare_stageout sb be p tmp_dir ?w3")
      from prepare_stageout_keeps[OF o] have "events w4 = events w2" by simp
      moreover have "events w' = events w4"
        using assms h \<open>r1 = Inr u\<close> s Inr o
        by (auto simp: prepare_run_def Let_def split: sum.splits if_splits)
      ultimately show ?thesis by simp
    qed
    with e1 e2 have "events w' = events w @ ((if sandbox_before_run p = None then [] else [BeforeRun]) @ evs)
       \<and> list_all is_prepare_event ((if sandbox_before_run p = None then [] else [BeforeRun]) @ evs)"
      by simp
    then show ?thesis by blast
  qed
qed

lemma prepare_run_stageout:
  assumes "prepare_run sb be p tmp_dir w = (Inr (cmd, Some info), w1)"
  shows "staged_targets info = struct_map (staged_leaf (stage_dir info)) (targets info)"
proof -
  from assms obtain wa wb where "prepare_stageout sb be p tmp_dir wa = (Inr (Some info), wb)"
    by (auto simp: prepare_run_def Let_def split: prod.splits sum.splits if_splits)
  then show ?thesis by (rule prepare_stageout_Some(1))
qed

lemma stageout_events:
  assumes "staged_targets info = struct_map (staged_leaf (stage_dir info)) (targets info)"
    and "stageout p info w = (r, w')"
  shows "r = Inr () \<and> (\<exists>evs n. events w' = events w @ StageOut # evs @ [StagedOut n]
           \<and> list_all is_stageout_event evs)"
proof -
  obtain r1 w1 where c: "copy_out_leaves (staged_leaf (stage_dir info))
        (leaves (targets info)) (emit StageOut w) = (r1, w1)"
    by (cases "copy_out_leaves (staged_leaf (stage_dir info))
        (leaves (targets info)) (emit StageOut w)")
  from copy_out_leaves_events[OF c] obtain evs where
    e: "r1 = Inr ()" "events w1 = events (emit StageOut w) @ evs" "list_all is_stageout_event evs"
    by blast
  from assms(2) c e(1)
  have "r = Inr ()" "w' = emit (StagedOut (length (listdir p (stage_dir info) (files w1)))) w1"
    by (auto simp: stageout_leaves[OF assms(1)])
  with e have "r = Inr () \<and> events w' = events w @ StageOut # evs @
        [StagedOut (length (listdir p (stage_dir info) (files w1)))]
        \<and> list_all is_stageout_event evs"
    by (simp add: emit_def)
  then show ?thesis by blast
qed

lemma filter_no_match: "list_all P evs \<Longrightarrow> (\<And>e. P e \<Longrightarrow> \<not> Q e) \<Longrightarrow> filter Q evs = []"
  by (induction evs) auto

lemma prepare_run_plain:
  assumes "sandbox_before_run p = None" and "\<not> sandbox_stagein p" and "sandbox_cmd p = Inr cmd"
    and "prepare_stageout sb be p tmp_dir w = (Inr (Some info), w')"
  shows "prepare_run sb be p tmp_dir w = (Inr (cmd, Some info), w'\<lparr>stageout_info := Some info\<rparr>)"
  using assms by (simp add: prepare_run_def call_hook_def stagein_def Let_def)

lemma count_list_no_match: "list_all P evs \<Longrightarrow> \<not> P x \<Longrightarrow> count_list evs x = 0"
  by (induction evs) auto

lemma run_in_context_result:
  assumes "run_in_context sb be p cmd w1 = (r, w')"
  shows "\<exists>evs. events w' = events w1 @ EnterSandbox # evs @ [LeaveSandbox]
           \<and> set evs \<subseteq> {Subprocess cmd} \<union> range Exit"
    and "(r = Inr ()) =
           (case env sb be (emit EnterSandbox w1) of
              (Inl e, w2) \<Rightarrow> False
            | (Inr ev, w2) \<Rightarrow> fst (popen p cmd ev (files w2)) = Inr 0)"
    and "r = Inr () \<longrightarrow>
           events w' = events w1 @ [EnterSandbox, Subprocess cmd, Exit 0, LeaveSandbox]"
proof -
  obtain r2 w2 where e: "env sb be (emit EnterSandbox w1) = (r2, w2)"
    by (cases "env sb be (emit EnterSandbox w1)")
  from env_keeps_world[OF e] have ev2: "events w2 = events w1 @ [EnterSandbox]"
    by (simp add: emit_def)
  show "\<exists>evs. events w' = events w1 @ EnterSandbox # evs @ [LeaveSandbox]
           \<and> set evs \<subseteq> {Subprocess cmd} \<union> range Exit"
  proof (cases r2)
    case (Inl err)
    with assms e have "w' = emit LeaveSandbox w2" by (simp add: run_in_context_def)
    with ev2 have "events w' = events w1 @ EnterSandbox # [] @ [LeaveSandbox]"
      by (simp add: emit_def)
    then show ?thesis by (intro exI[of _ "[]"]) simp
  next
    case (Inr ev)
    obtain r3 fs where po: "popen p cmd ev (files w2) = (r3, fs)"
      by (cases "popen p cmd ev (files w2)")
    show ?thesis
    proof (cases r3)
      case (Inl err)
      with assms e Inr po have "events w' = events w1 @ EnterSandbox # [Subprocess cmd] @ [LeaveSandbox]"
        by (auto simp: run_in_context_def emit_def ev2)
      then show ?thesis by (intro exI[of _ "[Subprocess cmd]"]) simp
    next
      case (Inr code)
      with assms e \<open>r2 = Inr ev\<close> po
      have "events w' = events w1 @ EnterSandbox # [Subprocess cmd, Exit code] @ [LeaveSandbox]"
        by (auto simp: run_in_context_def emit_def ev2 Let_def split: if_splits)
      then show ?thesis by (intro exI[of _ "[Subprocess cmd, Exit code]"]) simp
    qed
  qed
  show "(r = Inr ()) =
           (case env sb be (emit EnterSandbox w1) of
              (Inl e, w2) \<Rightarrow> False
            | (Inr ev, w2) \<Rightarrow> fst (popen p cmd ev (files w2)) = Inr 0)"
    using assms
    by (auto simp: run_in_context_def Let_def split: prod.splits sum.splits if_splits)
  show "r = Inr () \<longrightarrow>
           events w' = events w1 @ [EnterSandbox, Subprocess cmd, Exit 0, LeaveSandbox]"
    using assms e ev2
    by (auto simp: run_in_context_def Let_def emit_def split: prod.splits sum.splits if_splits)
qed

lemma run_in_context_counts:
  assumes "run_in_context sb be p cmd w1 = (r, w')"
  shows "count_list (events w') AfterRun = count_list (events w1) AfterRun"
    and "filter is_stageout_event (events w') = filter is_stageout_event (events w1)"
proof -
  from run_in_context_result(1)[OF assms] obtain evs where
    e: "events w' = events w1 @ EnterSandbox # evs @ [LeaveSandbox]"
    and s: "set evs \<subseteq> {Subprocess cmd} \<union> range Exit" by blast
  have "list_all (\<lambda>e. \<not> is_stageout_event e \<and> e \<noteq> AfterRun) evs"
    using s by (auto simp: list_all_iff)
  then have "count_list evs AfterRun = 0" "filter is_stageout_event evs = []"
    by (induction evs) auto
  with e show "count_list (events w') AfterRun = count_list (events w1) AfterRun"
    and "filter is_stageout_event (events w') = filter is_stageout_event (events w1)"
    by simp_all
qed

text \<open>What the runs of \<open>two_outputs\<close> and \<open>exit_17\<close> do before the subprocess.\<close>

lemma prepare_stageout_two_outputs:
  "prepare_stageout docker_slc7 resolving two_outputs ''/tmp/law'' empty_world =
     (Inr (Some two_outputs_info),
      empty_world\<lparr>envs := [(''docker'', ''image'') \<mapsto> [(''PATH'', ''/bin'')]],
                  create_env_calls := [(''docker'', ''image'')]\<rparr>)"
  by (simp add: prepare_stageout_def two_outputs_def two_outputs_info_def Let_def
      env_def docker_slc7_def resolving_def empty_world_def
      create_staged_target_struct_DirTarget staged_leaf_def child_path_def
      out_hists_def out_log_def)

lemma prepare_stageout_exit_17:
  "prepare_stageout docker_slc7 resolving exit_17 ''/tmp/law'' empty_world =
     (Inr (Some two_outputs_info),
      empty_world\<lparr>envs := [(''docker'', ''image'') \<mapsto> [(''PATH'', ''/bin'')]],
                  create_env_calls := [(''docker'', ''image'')]\<rparr>)"
  by (simp add: prepare_stageout_def exit_17_def two_outputs_def two_outputs_info_def Let_def
      env_def docker_slc7_def resolving_def empty_world_def
      create_staged_target_struct_DirTarget staged_leaf_def child_path_def
      out_hists_def out_log_def)

lemma prepared_world_eq:
  "(empty_world\<lparr>envs := [(''docker'', ''image'') \<mapsto> [(''PATH'', ''/bin'')]],
                create_env_calls := [(''docker'', ''image'')]\<rparr>)\<lparr>stageout_info := Some two_outputs_info\<rparr>
   = prepared_world"
  by (simp add: empty_world_def prepared_world_def)

lemma prepare_run_two_outputs:
  "prepare_run docker_slc7 resolving two_outputs ''/tmp/law'' empty_world =
     (Inr (''law run'', Some two_outputs_info), prepared_world)"
  unfolding prepared_world_eq[symmetric]
  by (rule prepare_run_plain[OF _ _ _ prepare_stageout_two_outputs])
     (simp_all add: two_outputs_def)

lemma prepare_run_exit_17:
  "prepare_run docker_slc7 resolving exit_17 ''/tmp/law'' empty_world =
     (Inr (''law run'', Some two_outputs_info), prepared_world)"
  unfolding prepared_world_eq[symmetric]
  by (rule prepare_run_plain[OF _ _ _ prepare_stageout_exit_17])
     (simp_all add: exit_17_def two_outputs_def)

lemma env_prepared_world:
  "env docker_slc7 resolving (emit EnterSandbox prepared_world) =
     (Inr [(''PATH'', ''/bin'')], emit EnterSandbox prepared_world)"
  by (simp add: env_def Let_def docker_slc7_def resolving_def emit_def prepared_world_def)

lemma run_in_context_two_outputs:
  "run_in_context docker_slc7 resolving two_outputs ''law run'' prepared_world =
      (Inr (), prepared_world\<lparr>files := [''/tmp/law/stageout/7c_hists.root'' \<mapsto> ''H''],
                 events := [EnterSandbox, Subprocess ''law run'', Exit 0, LeaveSandbox]\<rparr>)"
  unfolding run_in_context_def env_prepared_world
  by (simp add: Let_def emit_def prepared_world_def two_outputs_def)

lemma run_in_context_exit_17:
  "run_in_context docker_slc7 resolving exit_17 ''law run'' prepared_world =
      (Inl (SandboxRunFailure ''docker::slc7'' 17),
       prepared_world\<lparr>files := [''/tmp/law/stageout/7c_hists.root'' \<mapsto> ''H''],
                 events := [EnterSandbox, Subprocess ''law run'', Exit 17, LeaveSandbox]\<rparr>)"
  unfolding run_in_context_def env_prepared_world
  by (simp add: Let_def emit_def prepared_world_def exit_17_def key_def join_key_def
      delimiter_def docker_slc7_def)

text \<open>
  C2: the command was built, the environment was resolved and the subprocess returned
  an exit code other than 0. Then the run raises the error that carries the key of the
  sandbox and this exit code; after the subprocess it only logs the closing banner, so
  \<open>stageout\<close> is not entered, no staged output is copied back, and the files are as
  the subprocess left them; the run as a whole has logged no stage-out event.
\<close>

theorem run_nonzero_exit:
  assumes "prepare_run sb be p tmp_dir w = (Inr (cmd, so), w1)"
    and "env sb be (emit EnterSandbox w1) = (Inr ev, w2)"
    and "popen p cmd ev (files w2) = (Inr code, fs)"
    and "code \<noteq> 0"
  shows "run sb be p tmp_dir w =
           (Inl (SandboxRunFailure (key sb) code),
            w2\<lparr>files := fs,
               events := events w1 @ [EnterSandbox, Subprocess cmd, Exit code, LeaveSandbox]\<rparr>)
     \<and> filter is_stageout_event (events (snd (run sb be p tmp_dir w))) =
         filter is_stageout_event (events w)
     \<and> files (snd (run sb be p tmp_dir w)) = fs"
proof -
  from env_keeps_world[OF assms(2)] have ev2: "events w2 = events w1 @ [EnterSandbox]"
    by (simp add: emit_def)
  have ctx: "run_in_context sb be p cmd w1 =
           (Inl (SandboxRunFailure (key sb) code),
            w2\<lparr>files := fs,
               events := events w1 @ [EnterSandbox, Subprocess cmd, Exit code, LeaveSandbox]\<rparr>)"
    using assms(2,3,4) by (simp add: run_in_context_def Let_def emit_def ev2)
  have r: "run sb be p tmp_dir w =
           (Inl (SandboxRunFailure (key sb) code),
            w2\<lparr>files := fs,
               events := events w1 @ [EnterSandbox, Subprocess cmd, Exit code, LeaveSandbox]\<rparr>)"
    by (simp add: run_def assms(1) ctx)
  from prepare_run_events[OF assms(1)] obtain evs where
    e1: "events w1 = events w @ evs" "list_all is_prepare_event evs" by blast
  have "filter is_stageout_event evs = []"
    using e1(2) by (rule filter_no_match) (auto elim: is_prepare_event.elims)
  with e1(1) have "filter is_stageout_event (events w1) = filter is_stageout_event (events w)"
    by simp
  with r show ?thesis by simp
qed

text \<open>The subprocess of \<open>exit_17\<close> writes a staged output and exits with code 17.\<close>

theorem run_nonzero_exit_witness:
  "prepare_run docker_slc7 resolving exit_17 ''/tmp/law'' empty_world =
     (Inr (''law run'', Some two_outputs_info), prepared_world)
   \<and> fst (env docker_slc7 resolving (emit EnterSandbox prepared_world)) =
       Inr [(''PATH'', ''/bin'')]
   \<and> fst (popen exit_17 ''law run'' [(''PATH'', ''/bin'')] Map.empty) = Inr 17
   \<and> fst (run docker_slc7 resolving exit_17 ''/tmp/law'' empty_world) =
       Inl (SandboxRunFailure ''docker::slc7'' 17)
   \<and> events (snd (run docker_slc7 resolving exit_17 ''/tmp/law'' empty_world)) =
       [EnterSandbox, Subprocess ''law run'', Exit 17, LeaveSandbox]
   \<and> files (snd (run docker_slc7 resolving exit_17 ''/tmp/law'' empty_world)) =
       [''/tmp/law/stageout/7c_hists.root'' \<mapsto> ''H'']"
proof -
  note h1 = prepare_run_exit_17
  note h2 = env_prepared_world
  have h3: "popen exit_17 ''law run'' [(''PATH'', ''/bin'')] (files (emit EnterSandbox prepared_world)) =
            (Inr 17, [''/tmp/law/stageout/7c_hists.root'' \<mapsto> ''H''])"
    by (simp add: exit_17_def emit_def prepared_world_def)
  have h4: "(17::int) \<noteq> 0" by simp
  have f2: "files (emit EnterSandbox prepared_world) = Map.empty"
    by (simp add: emit_def prepared_world_def)
  from run_nonzero_exit[OF h1 h2 h3 h4] h1 h2 h3 show ?thesis
    by (simp add: key_def join_key_def delimiter_def docker_slc7_def f2)
       (simp add: prepared_world_def)
qed

text \<open>
  C3, as the claim states it, fails: the run of \<open>exit_17\<close> reaches the subprocess,
  its after-run hook is callable, and the hook is not called.
\<close>

theorem after_run_skipped_on_failure:
  "sandbox_after_run exit_17 \<noteq> None
   \<and> events (snd (run docker_slc7 resolving exit_17 ''/tmp/law'' empty_world)) =
       [EnterSandbox, Subprocess ''law run'', Exit 17, LeaveSandbox]
   \<and> AfterRun \<notin> set (events (snd (run docker_slc7 resolving exit_17 ''/tmp/law'' empty_world)))"
proof -
  have "events (snd (run docker_slc7 resolving exit_17 ''/tmp/law'' empty_world)) =
       [EnterSandbox, Subprocess ''law run'', Exit 17, LeaveSandbox]"
    unfolding run_def prepare_run_exit_17 by (simp add: run_in_context_exit_17)
  moreover have "sandbox_after_run exit_17 \<noteq> None" by (simp add: exit_17_def two_outputs_def)
  ultimately show ?thesis by simp
qed

text \<open>
  C3 (amended): the after-run hook is called exactly when it is callable and the run
  got past stage-out, that is: the preparation and the \<open>with\<close> block were left
  without an exception, which needs the exit code 0, and \<open>stageout\<close>, when
  there were stage-out data, returned. Then it is called once and last: on the world
  that stage-out has left, after the events of the preparation, the subprocess and
  stage-out, in this order. In every other case the run raises and the hook is not
  called: when the subprocess exits with another code, when the subprocess or the
  resolution of the environment raises, when the run fails before the subprocess, and
  when stage-out raises.
\<close>

theorem after_run_once_after_stageout:
  "count_list (events (snd (run sb be p tmp_dir w))) AfterRun =
     count_list (events w) AfterRun
     + (if sandbox_after_run p \<noteq> None \<and> stageout_passed sb be p tmp_dir w then 1 else 0)
   \<and> (stageout_passed sb be p tmp_dir w \<longrightarrow> exit_code_zero sb be p tmp_dir w)
   \<and> (\<not> stageout_passed sb be p tmp_dir w \<longrightarrow> (\<exists>e. fst (run sb be p tmp_dir w) = Inl e))
   \<and> (stageout_passed sb be p tmp_dir w \<longrightarrow>
        (\<exists>cmd so w1 w2 w3 pre post.
            prepare_run sb be p tmp_dir w = (Inr (cmd, so), w1)
          \<and> run_in_context sb be p cmd w1 = (Inr (), w2)
          \<and> (case so of None \<Rightarrow> w3 = w2 | Some info \<Rightarrow> stageout p info w2 = (Inr (), w3))
          \<and> run sb be p tmp_dir w = call_hook (sandbox_after_run p) AfterRun w3
          \<and> events w3 =
              events w @ pre @ [EnterSandbox, Subprocess cmd, Exit 0, LeaveSandbox] @ post
          \<and> list_all is_prepare_event pre \<and> list_all is_stageout_event post
          \<and> (so = None \<longrightarrow> post = [])
          \<and> (so \<noteq> None \<longrightarrow> (\<exists>mid n. post = StageOut # mid @ [StagedOut n]))
          \<and> events (snd (run sb be p tmp_dir w)) =
              events w3 @ (if sandbox_after_run p = None then [] else [AfterRun])))"
proof -
  let ?passed = "stageout_passed sb be p tmp_dir w"
  let ?run = "run sb be p tmp_dir w"
  let ?order = "\<exists>cmd so w1 w2 w3 pre post.
            prepare_run sb be p tmp_dir w = (Inr (cmd, so), w1)
          \<and> run_in_context sb be p cmd w1 = (Inr (), w2)
          \<and> (case so of None \<Rightarrow> w3 = w2 | Some info \<Rightarrow> stageout p info w2 = (Inr (), w3))
          \<and> run sb be p tmp_dir w = call_hook (sandbox_after_run p) AfterRun w3
          \<and> events w3 =
              events w @ pre @ [EnterSandbox, Subprocess cmd, Exit 0, LeaveSandbox] @ post
          \<and> list_all is_prepare_event pre \<and> list_all is_stageout_event post
          \<and> (so = None \<longrightarrow> post = [])
          \<and> (so \<noteq> None \<longrightarrow> (\<exists>mid n. post = StageOut # mid @ [StagedOut n]))
          \<and> events (snd (run sb be p tmp_dir w)) =
              events w3 @ (if sandbox_after_run p = None then [] else [AfterRun])"
  obtain r1 w1 where prep: "prepare_run sb be p tmp_dir w = (r1, w1)"
    by (cases "prepare_run sb be p tmp_dir w")
  from prepare_run_events[OF prep] obtain pre where
    e1: "events w1 = events w @ pre" "list_all is_prepare_event pre" by blast
  have "count_list pre AfterRun = 0" using e1(2) by (rule count_list_no_match) simp
  with e1(1) have c1: "count_list (events w1) AfterRun = count_list (events w) AfterRun" by simp
  have failed: ?thesis
    if f1: "?run = (Inl e, w')"
      and f2: "count_list (events w') AfterRun = count_list (events w) AfterRun"
      and f3: "\<not> ?passed" for e w'
  proof (intro conjI impI)
    show "count_list (events (snd ?run)) AfterRun =
       count_list (events w) AfterRun + (if sandbox_after_run p \<noteq> None \<and> ?passed then 1 else 0)"
      using f2 f3 by (simp add: f1)
    show "exit_code_zero sb be p tmp_dir w" if "?passed" using that f3 by simp
    show "\<exists>e. fst ?run = Inl e" using f1 by simp
    show ?order if "?passed" using that f3 by simp
  qed
  show ?thesis
  proof (cases r1)
    case (Inl e)
    with prep have "?run = (Inl e, w1)" "\<not> ?passed"
      by (simp_all add: run_def stageout_passed_def)
    from this(1) c1 this(2) show ?thesis by (rule failed)
  next
    case (Inr cs)
    obtain cmd so where cs: "cs = (cmd, so)" by (cases cs)
    from prep Inr cs have prep': "prepare_run sb be p tmp_dir w = (Inr (cmd, so), w1)" by simp
    obtain r2 w2 where ctx: "run_in_context sb be p cmd w1 = (r2, w2)"
      by (cases "run_in_context sb be p cmd w1")
    from run_in_context_counts(1)[OF ctx] c1
    have c2: "count_list (events w2) AfterRun = count_list (events w) AfterRun" by simp
    have z: "exit_code_zero sb be p tmp_dir w = (r2 = Inr ())"
      using run_in_context_result(2)[OF ctx] by (simp add: exit_code_zero_def prep')
    show ?thesis
    proof (cases r2)
      case (Inl e)
      with prep' ctx have "?run = (Inl e, w2)" "\<not> ?passed"
        by (simp_all add: run_def stageout_passed_def)
      from this(1) c2 this(2) show ?thesis by (rule failed)
    next
      case (Inr u)
      then have ok: "r2 = Inr ()" by simp
      with ctx have ctx': "run_in_context sb be p cmd w1 = (Inr (), w2)" by simp
      from run_in_context_result(3)[OF ctx] ok e1(1)
      have e2: "events w2 = events w @ pre @ [EnterSandbox, Subprocess cmd, Exit 0, LeaveSandbox]"
        by simp
      have final: ?thesis
        if s3: "case so of None \<Rightarrow> w3 = w2 | Some info \<Rightarrow> stageout p info w2 = (Inr (), w3)"
          and e3: "events w3 = events w2 @ post"
          and m: "list_all is_stageout_event post"
          and pn: "so = None \<longrightarrow> post = []"
          and ps: "so \<noteq> None \<longrightarrow> (\<exists>mid n. post = StageOut # mid @ [StagedOut n])"
        for w3 post
      proof -
        have fin: "finish_run p so w2 = call_hook (sandbox_after_run p) AfterRun w3"
          using s3 by (cases so) (simp_all add: finish_run_def)
        have rn: "?run = call_hook (sandbox_after_run p) AfterRun w3"
          by (simp add: run_def prep' ctx' fin)
        have passed: "?passed"
          using s3 by (cases so) (simp_all add: stageout_passed_def prep' ctx')
        obtain r4 w4 where hk: "call_hook (sandbox_after_run p) AfterRun w3 = (r4, w4)"
          by (cases "call_hook (sandbox_after_run p) AfterRun w3")
        have e4: "events (snd ?run) =
            events w3 @ (if sandbox_after_run p = None then [] else [AfterRun])"
          using call_hook_events[OF hk] by (simp add: rn hk)
        have "count_list post AfterRun = 0" using m by (rule count_list_no_match) simp
        with e3 c2 have c3: "count_list (events w3) AfterRun = count_list (events w) AfterRun"
          by simp
        have cnt: "count_list (events (snd ?run)) AfterRun =
            count_list (events w) AfterRun
            + (if sandbox_after_run p \<noteq> None \<and> ?passed then 1 else 0)"
          using c3 passed by (simp add: e4)
        have e3': "events w3 =
            events w @ pre @ [EnterSandbox, Subprocess cmd, Exit 0, LeaveSandbox] @ post"
          by (simp add: e3 e2)
        have ord: ?order
          apply (rule exI[of _ cmd], rule exI[of _ so], rule exI[of _ w1], rule exI[of _ w2])
          apply (rule exI[of _ w3], rule exI[of _ pre], rule exI[of _ post])
          apply (intro conjI)
                   apply (rule prep')
                  apply (rule ctx')
                 apply (rule s3)
                apply (rule rn)
               apply (rule e3')
              apply (rule e1(2))
             apply (rule m)
            apply (rule pn)
           apply (rule ps)
          apply (rule e4)
          done
        show ?thesis
        proof (intro conjI impI)
          show "count_list (events (snd ?run)) AfterRun =
             count_list (events w) AfterRun
             + (if sandbox_after_run p \<noteq> None \<and> ?passed then 1 else 0)"
            by (rule cnt)
          show "exit_code_zero sb be p tmp_dir w" using z ok by simp
          show "\<exists>e. fst ?run = Inl e" if "\<not> ?passed" using that passed by simp
          show ?order by (rule ord)
        qed
      qed
      show ?thesis
      proof (cases so)
        case None
        have a: "case so of None \<Rightarrow> w2 = w2 | Some info \<Rightarrow> stageout p info w2 = (Inr (), w2)"
          by (simp add: None)
        have b: "events w2 = events w2 @ []" by simp
        have c: "list_all is_stageout_event []" by simp
        have d: "so = None \<longrightarrow> [] = ([]::event list)" by simp
        have e: "so \<noteq> None \<longrightarrow> (\<exists>mid n. [] = StageOut # mid @ [StagedOut n])"
          by (simp add: None)
        from a b c d e show ?thesis by (rule final)
      next
        case (Some info)
        obtain r3 w3 where st: "stageout p info w2 = (r3, w3)" by (cases "stageout p info w2")
        from stageout_events[OF prepare_run_stageout[OF prep'[unfolded Some]] st]
        obtain mid n where r3: "r3 = Inr ()"
          and e3: "events w3 = events w2 @ StageOut # mid @ [StagedOut n]"
          and m: "list_all is_stageout_event mid" by blast
        let ?post = "StageOut # mid @ [StagedOut n]"
        have a: "case so of None \<Rightarrow> w3 = w2 | Some info \<Rightarrow> stageout p info w2 = (Inr (), w3)"
          using st r3 by (simp add: Some)
        have b: "events w3 = events w2 @ ?post" by (rule e3)
        have c: "list_all is_stageout_event ?post" using m by simp
        have d: "so = None \<longrightarrow> ?post = []" by (simp add: Some)
        have e: "so \<noteq> None \<longrightarrow> (\<exists>mid' n'. ?post = StageOut # mid' @ [StagedOut n'])"
          by simp
        from a b c d e show ?thesis by (rule final)
      qed
    qed
  qed
qed

text \<open>
  The run of \<open>two_outputs\<close> calls the hook once, at the very end; the run of
  \<open>exit_17\<close> raises and does not call it.
\<close>

theorem after_run_once_after_stageout_witness:
  "sandbox_after_run two_outputs \<noteq> None
   \<and> stageout_passed docker_slc7 resolving two_outputs ''/tmp/law'' empty_world
   \<and> exit_code_zero docker_slc7 resolving two_outputs ''/tmp/law'' empty_world
   \<and> count_list (events (snd (run docker_slc7 resolving two_outputs ''/tmp/law'' empty_world))) AfterRun = 1
   \<and> events (snd (run docker_slc7 resolving two_outputs ''/tmp/law'' empty_world)) =
       [EnterSandbox, Subprocess ''law run'', Exit 0, LeaveSandbox,
        StageOut, StageOutCopy ''/tmp/law/stageout/7c_hists.root'' ''/store/out/hists.root'',
        StageOutWarning ''/tmp/law/stageout/9d_log.txt'', StagedOut 1, AfterRun]
   \<and> \<not> stageout_passed docker_slc7 resolving exit_17 ''/tmp/law'' empty_world
   \<and> fst (run docker_slc7 resolving exit_17 ''/tmp/law'' empty_world) =
       Inl (SandboxRunFailure ''docker::slc7'' 17)
   \<and> count_list (events (snd (run docker_slc7 resolving exit_17 ''/tmp/law'' empty_world))) AfterRun = 0"
proof -
  note c1 = run_in_context_two_outputs
  note c2 = run_in_context_exit_17
  have s: "stageout two_outputs two_outputs_info
        (prepared_world\<lparr>files := [''/tmp/law/stageout/7c_hists.root'' \<mapsto> ''H''],
                 events := [EnterSandbox, Subprocess ''law run'', Exit 0, LeaveSandbox]\<rparr>) =
      (Inr (), prepared_world\<lparr>files := [''/tmp/law/stageout/7c_hists.root'' \<mapsto> ''H'',
                                       ''/store/out/hists.root'' \<mapsto> ''H''],
                 events := [EnterSandbox, Subprocess ''law run'', Exit 0, LeaveSandbox,
                   StageOut, StageOutCopy ''/tmp/law/stageout/7c_hists.root'' ''/store/out/hists.root'',
                   StageOutWarning ''/tmp/law/stageout/9d_log.txt'', StagedOut 1]\<rparr>)"
    by (simp add: stageout_def two_outputs_info_def two_outputs_def emit_def prepared_world_def
        local_exists_def copy_from_local_def out_hists_def out_log_def)
  have p1: "stageout_passed docker_slc7 resolving two_outputs ''/tmp/law'' empty_world"
    unfolding stageout_passed_def prepare_run_two_outputs by (simp add: c1 s)
  have p2: "\<not> stageout_passed docker_slc7 resolving exit_17 ''/tmp/law'' empty_world"
    unfolding stageout_passed_def prepare_run_exit_17 by (simp add: c2)
  have r1: "events (snd (run docker_slc7 resolving two_outputs ''/tmp/law'' empty_world)) =
       [EnterSandbox, Subprocess ''law run'', Exit 0, LeaveSandbox,
        StageOut, StageOutCopy ''/tmp/law/stageout/7c_hists.root'' ''/store/out/hists.root'',
        StageOutWarning ''/tmp/law/stageout/9d_log.txt'', StagedOut 1, AfterRun]"
    unfolding run_def prepare_run_two_outputs
    by (simp add: c1 finish_run_def s) (simp add: call_hook_def two_outputs_def emit_def)
  have r2: "fst (run docker_slc7 resolving exit_17 ''/tmp/law'' empty_world) =
       Inl (SandboxRunFailure ''docker::slc7'' 17)"
    unfolding run_def prepare_run_exit_17 by (simp add: c2)
  have a: "sandbox_after_run two_outputs \<noteq> None" by (simp add: two_outputs_def)
  from after_run_once_after_stageout[of docker_slc7 resolving two_outputs "''/tmp/law''" empty_world]
    after_run_once_after_stageout[of docker_slc7 resolving exit_17 "''/tmp/law''" empty_world]
    p1 p2 a r1 r2
  show ?thesis by (simp add: empty_world_def)
qed

subsection \<open>The sandbox of a task\<close>

lemma split_char_not_Nil: "split_char c s \<noteq> []"
  by (induction s) (auto split: list.splits)

lemma new_key_join: "new_key k = Inr (t, n) \<Longrightarrow> join_key t n = k"
  by (auto simp: new_key_def split: sum.splits intro: join_split_key)

lemma new_key: "new classes e = Inr sb \<Longrightarrow> key sb = e"
  by (auto simp: new_def key_def split: sum.splits option.splits prod.splits dest: new_key_join)

lemma choose_sandbox_switched:
  "sandbox_switched amb \<Longrightarrow>
   \<exists>e. choose_sandbox amb task = Inr (Some e) \<and> e \<in> set (current_sandbox amb)"
  using split_char_not_Nil[of "CHR '',''" "law_sandbox amb"]
  by (auto simp: choose_sandbox_def current_sandbox_def split: list.splits)

lemma initialize_sandbox_fresh:
  assumes "force \<or> \<not> priv_sandbox_initialized st"
  shows "initialize_sandbox amb classes task force st =
     (let st1 = st\<lparr>priv_sandbox_initialized := True, priv_effective_sandbox := None,
                    priv_sandbox_inst := None, priv_sandbox_proxy := None\<rparr>
      in case choose_sandbox amb task of
           Inl e \<Rightarrow> (Inl e, st1)
         | Inr chosen \<Rightarrow>
             (let st2 = st1\<lparr>priv_effective_sandbox := chosen\<rparr>
              in if chosen = None \<or> chosen = Some NO_STR then
                   (if \<not> allow_empty_sandbox task then (Inl MissingSandboxError, st2)
                    else (Inr (), st2\<lparr>priv_effective_sandbox := Some NO_STR\<rparr>))
                 else
                   (case chosen of
                      None \<Rightarrow> (Inr (), st2)
                    | Some eff \<Rightarrow>
                        (case new classes eff of
                           Inl e \<Rightarrow> (Inl e, st2)
                         | Inr inst \<Rightarrow>
                             (if \<not> is_active amb inst
                              then (Inr (), st2\<lparr>priv_sandbox_inst := Some inst,
                                                 priv_sandbox_proxy := Some SandboxProxy\<rparr>)
                              else (Inr (), st2))))))"
proof -
  from assms have "(priv_sandbox_initialized st \<and> \<not> force) = False" by auto
  then show ?thesis unfolding initialize_sandbox_def by (simp only: if_False)
qed

lemma initialize_sandbox_keeps:
  assumes "proxy_only_outside amb task st"
  shows "proxy_only_outside amb task (snd (initialize_sandbox amb classes task force st))"
proof (cases "priv_sandbox_initialized st \<and> \<not> force")
  case True
  with assms show ?thesis by (simp add: initialize_sandbox_def)
next
  case False
  then have fr: "force \<or> \<not> priv_sandbox_initialized st" by auto
  note init = initialize_sandbox_fresh[OF fr]
  show ?thesis
  proof (cases "choose_sandbox amb task")
    case (Inl e)
    then show ?thesis
      by (simp add: init proxy_only_outside_def Let_def)
  next
    case (Inr chosen)
    show ?thesis
    proof (cases "chosen = None \<or> chosen = Some NO_STR")
      case True
      with Inr show ?thesis
        by (auto simp: init proxy_only_outside_def Let_def)
    next
      case nonempty: False
      then obtain e where e: "chosen = Some e" "e \<noteq> NO_STR" by auto
      show ?thesis
      proof (cases "new classes e")
        case (Inl err)
        with Inr e show ?thesis
          by (simp add: init proxy_only_outside_def Let_def)
      next
        case new: (Inr sb)
        from new_key[OF new] have k: "key sb = e" .
        with Inr e new show ?thesis
          by (simp add: init proxy_only_outside_def Let_def)
      qed
    qed
  qed
qed

lemma initialize_many_keeps:
  "proxy_only_outside amb task st \<Longrightarrow>
   proxy_only_outside amb task (initialize_many amb classes task forces st)"
  by (induction forces arbitrary: st) (simp_all add: initialize_sandbox_keeps)

lemma init_state_outside: "proxy_only_outside amb task init_state"
  by (simp add: proxy_only_outside_def init_state_def)

lemma initialize_sandbox_initialized:
  "priv_sandbox_initialized (snd (initialize_sandbox amb classes task force st))"
  by (auto simp: initialize_sandbox_def Let_def split: sum.splits option.splits)

lemma initialize_sandbox_again:
  "priv_sandbox_initialized st \<Longrightarrow> initialize_sandbox amb classes task False st = (Inr (), st)"
  by (simp add: initialize_sandbox_def)

lemma matching_no_inst:
  assumes "proxy_only_outside amb task st"
    and "sandbox_switched amb \<or> (\<exists>e. choose_sandbox amb task = Inr (Some e) \<and> e \<in> set (current_sandbox amb))"
  shows "priv_sandbox_inst st = None \<and> priv_sandbox_proxy st = None"
proof -
  from assms(2) obtain e where e: "choose_sandbox amb task = Inr (Some e)" "e \<in> set (current_sandbox amb)"
    using choose_sandbox_switched[of amb task] by blast
  show ?thesis
  proof (cases "priv_sandbox_inst st")
    case None
    with assms(1) show ?thesis by (simp add: proxy_only_outside_def)
  next
    case (Some sb)
    with assms(1) have "\<not> is_active amb sb" "choose_sandbox amb task = Inr (Some (key sb))"
      by (simp_all add: proxy_only_outside_def)
    with e have False by (simp add: is_active_def)
    then show ?thesis ..
  qed
qed

text \<open>
  C9: the process runs inside a sandbox (the switched flag is set, so that the task is
  placed in the first current sandbox), or the designation chosen for the task is one
  of the current sandboxes. Then, after any calls of \<open>_initialize_sandbox\<close> and an
  access of the properties, the task holds neither a sandbox instance nor a proxy; the
  properties \<open>sandbox_inst\<close> and \<open>sandbox_proxy\<close> return \<open>None\<close> and
  \<open>is_sandboxed\<close> returns \<open>True\<close> whenever they return; and when the designation is
  not empty, has no comma, splits into type and name and its type has a backend, the
  initialisation returns without error, with the designation as effective sandbox.
\<close>

theorem no_nesting_in_matching_sandbox:
  assumes "sandbox_switched amb
           \<or> (\<exists>e. choose_sandbox amb task = Inr (Some e) \<and> e \<in> set (current_sandbox amb))"
    and "st = initialize_many amb classes task forces init_state"
  shows "priv_sandbox_inst st = None \<and> priv_sandbox_proxy st = None
     \<and> priv_sandbox_inst (snd (initialize_sandbox amb classes task force st)) = None
     \<and> priv_sandbox_proxy (snd (initialize_sandbox amb classes task force st)) = None
     \<and> (\<forall>x. fst (sandbox_inst amb classes task st) = Inr x \<longrightarrow> x = None)
     \<and> (\<forall>x. fst (sandbox_proxy amb classes task st) = Inr x \<longrightarrow> x = None)
     \<and> (\<forall>b. fst (is_sandboxed amb classes task st) = Inr b \<longrightarrow> b)
     \<and> (\<forall>e t n. choose_sandbox amb task = Inr (Some e) \<and> e \<noteq> NO_STR \<and> CHR '','' \<notin> set e
           \<and> split_key e = Inr (t, n) \<and> find_class t classes \<noteq> None \<longrightarrow>
           initialize_sandbox amb classes task True st =
             (Inr (), \<lparr>priv_sandbox_initialized = True, priv_effective_sandbox = Some e,
                       priv_sandbox_inst = None, priv_sandbox_proxy = None\<rparr>))"
proof -
  have inv: "proxy_only_outside amb task st"
    unfolding assms(2) by (rule initialize_many_keeps[OF init_state_outside])
  have a: "priv_sandbox_inst st = None \<and> priv_sandbox_proxy st = None"
    by (rule matching_no_inst[OF inv assms(1)])
  have b: "priv_sandbox_inst (snd (initialize_sandbox amb classes task force st)) = None
     \<and> priv_sandbox_proxy (snd (initialize_sandbox amb classes task force st)) = None" for force
    by (rule matching_no_inst[OF initialize_sandbox_keeps[OF inv] assms(1)])
  have c: "\<forall>x. fst (sandbox_inst amb classes task st) = Inr x \<longrightarrow> x = None"
    using b[of False] by (auto simp: sandbox_inst_def split: prod.splits sum.splits)
  have d: "\<forall>x. fst (sandbox_proxy amb classes task st) = Inr x \<longrightarrow> x = None"
    using b[of False] by (auto simp: sandbox_proxy_def split: prod.splits sum.splits)
  have e: "\<forall>b. fst (is_sandboxed amb classes task st) = Inr b \<longrightarrow> b"
  proof (intro allI impI)
    fix r assume r: "fst (is_sandboxed amb classes task st) = Inr r"
    obtain r1 st1 where i: "initialize_sandbox amb classes task False st = (r1, st1)"
      by (cases "initialize_sandbox amb classes task False st")
    from b[of False] i have n: "priv_sandbox_inst st1 = None" by simp
    from initialize_sandbox_initialized[of amb classes task False st] i
    have "priv_sandbox_initialized st1" by simp
    then have again: "initialize_sandbox amb classes task False st1 = (Inr (), st1)"
      by (rule initialize_sandbox_again)
    from r i n again show r
      by (auto simp: is_sandboxed_def effective_sandbox_def sandbox_inst_def
          split: sum.splits if_splits)
  qed
  have f: "\<forall>e t n. choose_sandbox amb task = Inr (Some e) \<and> e \<noteq> NO_STR \<and> CHR '','' \<notin> set e
           \<and> split_key e = Inr (t, n) \<and> find_class t classes \<noteq> None \<longrightarrow>
           initialize_sandbox amb classes task True st =
             (Inr (), \<lparr>priv_sandbox_initialized = True, priv_effective_sandbox = Some e,
                       priv_sandbox_inst = None, priv_sandbox_proxy = None\<rparr>)"
  proof (intro allI impI)
    fix e t n
    assume h: "choose_sandbox amb task = Inr (Some e) \<and> e \<noteq> NO_STR \<and> CHR '','' \<notin> set e
           \<and> split_key e = Inr (t, n) \<and> find_class t classes \<noteq> None"
    then obtain cls where cls: "find_class t classes = Some cls" by auto
    from h have nk: "new_key e = Inr (t, n)" by (simp add: new_key_def check_key_def)
    have nw: "new classes e = Inr \<lparr>sandbox_type = t, sandbox_name = n\<rparr>"
      by (simp add: new_def nk cls)
    from assms(1) h have "e \<in> set (current_sandbox amb)"
      using choose_sandbox_switched[of amb task] by auto
    moreover have "key \<lparr>sandbox_type = t, sandbox_name = n\<rparr> = e"
      using new_key[OF nw] .
    ultimately have act: "is_active amb \<lparr>sandbox_type = t, sandbox_name = n\<rparr>"
      by (simp add: is_active_def)
    show "initialize_sandbox amb classes task True st =
             (Inr (), \<lparr>priv_sandbox_initialized = True, priv_effective_sandbox = Some e,
                       priv_sandbox_inst = None, priv_sandbox_proxy = None\<rparr>)"
      using h nw act by (simp add: initialize_sandbox_fresh Let_def)
  qed
  from a b[of force] c d e f show ?thesis by blast
qed

text \<open>
  A task designated for \<open>docker::slc7\<close>, in a process switched into that sandbox and
  in a process that lists it: no instance, no proxy, \<open>is_sandboxed\<close> is true.
\<close>

theorem no_nesting_in_matching_sandbox_witness:
  "sandbox_switched inside_docker
   \<and> choose_sandbox listed docker_task = Inr (Some ''docker::slc7'')
   \<and> ''docker::slc7'' \<in> set (current_sandbox listed)
   \<and> initialize_sandbox inside_docker backends docker_task True init_state =
       (Inr (), \<lparr>priv_sandbox_initialized = True, priv_effective_sandbox = Some ''docker::slc7'',
                 priv_sandbox_inst = None, priv_sandbox_proxy = None\<rparr>)
   \<and> initialize_sandbox listed backends docker_task True init_state =
       (Inr (), \<lparr>priv_sandbox_initialized = True, priv_effective_sandbox = Some ''docker::slc7'',
                 priv_sandbox_inst = None, priv_sandbox_proxy = None\<rparr>)
   \<and> fst (sandbox_inst inside_docker backends docker_task init_state) = Inr None
   \<and> fst (sandbox_proxy listed backends docker_task init_state) = Inr None
   \<and> fst (is_sandboxed inside_docker backends docker_task init_state) = Inr True"
proof -
  have sw: "sandbox_switched inside_docker" by (simp add: sandbox_switched_def inside_docker_def)
  have ch1: "choose_sandbox inside_docker docker_task = Inr (Some ''docker::slc7'')"
    by (simp add: choose_sandbox_def sandbox_switched_def current_sandbox_def inside_docker_def)
  have ch2: "choose_sandbox listed docker_task = Inr (Some ''docker::slc7'')"
    by (simp add: choose_sandbox_def sandbox_switched_def listed_def docker_task_def)
  have cur: "''docker::slc7'' \<in> set (current_sandbox listed)"
    by (simp add: current_sandbox_def listed_def)
  have m: "\<exists>e. choose_sandbox listed docker_task = Inr (Some e) \<and> e \<in> set (current_sandbox listed)"
    using ch2 cur by blast
  have i: "init_state = initialize_many amb backends docker_task [] init_state" for amb by simp
  have ok: "''docker::slc7'' \<noteq> NO_STR \<and> CHR '','' \<notin> set ''docker::slc7''
      \<and> split_key ''docker::slc7'' = Inr (''docker'', ''slc7'')
      \<and> find_class ''docker'' backends \<noteq> None"
    by (simp add: NO_STR_def split_key_def split1_def delimiter_def strip_def is_space_def
        backends_def)
  have n: "initialize_sandbox amb backends docker_task False init_state =
           initialize_sandbox amb backends docker_task True init_state" for amb
    by (simp add: initialize_sandbox_def init_state_def)
  from no_nesting_in_matching_sandbox[where amb = inside_docker and classes = backends
      and task = docker_task and forces = "[]" and st = init_state, OF disjI1[OF sw] i]
  have a: "(\<forall>e t n. choose_sandbox inside_docker docker_task = Inr (Some e) \<and> e \<noteq> NO_STR
           \<and> CHR '','' \<notin> set e \<and> split_key e = Inr (t, n) \<and> find_class t backends \<noteq> None \<longrightarrow>
           initialize_sandbox inside_docker backends docker_task True init_state =
             (Inr (), \<lparr>priv_sandbox_initialized = True, priv_effective_sandbox = Some e,
                       priv_sandbox_inst = None, priv_sandbox_proxy = None\<rparr>))"
    by blast
  from no_nesting_in_matching_sandbox[where amb = listed and classes = backends
      and task = docker_task and forces = "[]" and st = init_state, OF disjI2[OF m] i]
  have b: "(\<forall>e t n. choose_sandbox listed docker_task = Inr (Some e) \<and> e \<noteq> NO_STR
           \<and> CHR '','' \<notin> set e \<and> split_key e = Inr (t, n) \<and> find_class t backends \<noteq> None \<longrightarrow>
           initialize_sandbox listed backends docker_task True init_state =
             (Inr (), \<lparr>priv_sandbox_initialized = True, priv_effective_sandbox = Some e,
                       priv_sandbox_inst = None, priv_sandbox_proxy = None\<rparr>))"
    by blast
  from a ch1 ok have r1: "initialize_sandbox inside_docker backends docker_task True init_state =
       (Inr (), \<lparr>priv_sandbox_initialized = True, priv_effective_sandbox = Some ''docker::slc7'',
                 priv_sandbox_inst = None, priv_sandbox_proxy = None\<rparr>)"
    by blast
  from b ch2 ok have r2: "initialize_sandbox listed backends docker_task True init_state =
       (Inr (), \<lparr>priv_sandbox_initialized = True, priv_effective_sandbox = Some ''docker::slc7'',
                 priv_sandbox_inst = None, priv_sandbox_proxy = None\<rparr>)"
    by blast
  have s1: "fst (sandbox_inst inside_docker backends docker_task init_state) = Inr None"
    by (simp add: sandbox_inst_def n r1)
  have s2: "fst (sandbox_proxy listed backends docker_task init_state) = Inr None"
    by (simp add: sandbox_proxy_def n r2)
  have s3: "fst (is_sandboxed inside_docker backends docker_task init_state) = Inr True"
    by (simp add: is_sandboxed_def effective_sandbox_def sandbox_inst_def n r1
        initialize_sandbox_again NO_STR_def)
  from sw ch2 cur r1 r2 s1 s2 s3 show ?thesis by simp
qed

lemma proxy_only_outside_direct:
  assumes "proxy_only_outside amb task st"
  shows "(priv_effective_sandbox st = Some NO_STR \<or> priv_sandbox_inst st = None) =
         (priv_sandbox_inst st = None)"
    and "(priv_sandbox_inst st = None) = (priv_sandbox_proxy st = None)"
  using assms by (auto simp: proxy_only_outside_def split: option.splits)

lemma is_sandboxed_result:
  assumes "is_sandboxed amb classes task st = (Inr b, st1)"
  shows "initialize_sandbox amb classes task False st = (Inr (), st1)"
    and "b = (priv_effective_sandbox st1 = Some NO_STR \<or> priv_sandbox_inst st1 = None)"
proof -
  obtain r s1 where i: "initialize_sandbox amb classes task False st = (r, s1)"
    by (cases "initialize_sandbox amb classes task False st")
  from initialize_sandbox_initialized[of amb classes task False st] i
  have "priv_sandbox_initialized s1" by simp
  then have again: "initialize_sandbox amb classes task False s1 = (Inr (), s1)"
    by (rule initialize_sandbox_again)
  from assms i again have "r = Inr ()" "st1 = s1"
    "b = (priv_effective_sandbox s1 = Some NO_STR \<or> priv_sandbox_inst s1 = None)"
    by (auto simp: is_sandboxed_def effective_sandbox_def sandbox_inst_def
        split: sum.splits if_splits)
  with i show "initialize_sandbox amb classes task False st = (Inr (), st1)"
    and "b = (priv_effective_sandbox st1 = Some NO_STR \<or> priv_sandbox_inst st1 = None)"
    by simp_all
qed

text \<open>
  A run of the body of \<open>_initialize_sandbox\<close> overwrites all four attributes, so
  what it leaves depends on the process and the task only.
\<close>

lemma initialize_sandbox_fixed:
  fixes st :: task_state
  assumes "force \<or> \<not> priv_sandbox_initialized st"
  shows "initialize_sandbox amb classes task force st =
         initialize_sandbox amb classes task True init_state"
proof -
  have "st\<lparr>priv_sandbox_initialized := True, priv_effective_sandbox := None,
            priv_sandbox_inst := None, priv_sandbox_proxy := None\<rparr> =
        init_state\<lparr>priv_sandbox_initialized := True, priv_effective_sandbox := None,
            priv_sandbox_inst := None, priv_sandbox_proxy := None\<rparr>"
    by (cases st) (simp add: init_state_def)
  then show ?thesis
    unfolding initialize_sandbox_fresh[OF assms]
      initialize_sandbox_fresh[of True init_state, OF disjI1[OF TrueI]]
    by (simp only:)
qed

lemma initialize_sandbox_reach:
  assumes "st = init_state \<or> st = snd (initialize_sandbox amb classes task True init_state)"
  shows "snd (initialize_sandbox amb classes task force st) =
           snd (initialize_sandbox amb classes task True init_state)
         \<or> (priv_sandbox_initialized st \<and> \<not> force
            \<and> snd (initialize_sandbox amb classes task force st) = st
            \<and> st = snd (initialize_sandbox amb classes task True init_state))"
proof (cases "force \<or> \<not> priv_sandbox_initialized st")
  case True
  then have "initialize_sandbox amb classes task force st =
      initialize_sandbox amb classes task True init_state"
    by (rule initialize_sandbox_fixed)
  then show ?thesis by simp
next
  case False
  then have i: "priv_sandbox_initialized st" "\<not> force" by simp_all
  with assms have "st = snd (initialize_sandbox amb classes task True init_state)"
    by (auto simp: init_state_def)
  moreover from i have "snd (initialize_sandbox amb classes task force st) = st"
    by (simp add: initialize_sandbox_def)
  ultimately show ?thesis using i by simp
qed

lemma initialize_many_reach:
  "st0 = init_state \<or> st0 = snd (initialize_sandbox amb classes task True init_state) \<Longrightarrow>
   initialize_many amb classes task forces st0 = init_state
   \<or> initialize_many amb classes task forces st0 =
       snd (initialize_sandbox amb classes task True init_state)"
proof (induction forces arbitrary: st0)
  case Nil
  then show ?case by simp
next
  case (Cons force forces)
  from initialize_sandbox_reach[OF Cons.prems, of force]
  have "snd (initialize_sandbox amb classes task force st0) =
          snd (initialize_sandbox amb classes task True init_state)"
    by auto
  then have "snd (initialize_sandbox amb classes task force st0) = init_state
      \<or> snd (initialize_sandbox amb classes task force st0) =
          snd (initialize_sandbox amb classes task True init_state)"
    by simp
  from Cons.IH[OF this] show ?case by simp
qed

lemma resolved_inst:
  "(priv_sandbox_inst (snd (initialize_sandbox amb classes task True init_state)) = Some sb) =
   (\<exists>e. choose_sandbox amb task = Inr (Some e) \<and> e \<noteq> NO_STR \<and> new classes e = Inr sb
        \<and> \<not> is_active amb sb)"
  unfolding initialize_sandbox_fresh[of True init_state, OF disjI1[OF TrueI]]
  by (auto simp: Let_def init_state_def split: sum.splits option.splits)

text \<open>
  C10: on a task in any state its attributes can be in, when \<open>is_sandboxed\<close> returns,
  the sandbox of the task is resolved: the initialisation has returned without error
  and has left the attributes that a run of its body leaves for this process and this
  task, whatever was called before. \<open>is_sandboxed\<close>
  returns \<open>True\<close> exactly when the effective sandbox is the empty designation or
  there is no sandbox instance, which is exactly when there is no instance, and exactly
  when there is no proxy: true for a task that runs directly, false for a task wrapped
  by a proxy. It returns \<open>False\<close> exactly when the designation chosen for the task is
  not empty and names a sandbox that is not active in this process. The property
  \<open>env\<close> of the task is then the environment of the process
  in the first case and the cached environment of the sandbox instance in the second.
\<close>

theorem is_sandboxed_means_direct:
  assumes "st = initialize_many amb classes task forces init_state"
    and "is_sandboxed amb classes task st = (Inr b, st1)"
  shows "b = (priv_effective_sandbox st1 = Some NO_STR \<or> priv_sandbox_inst st1 = None)
     \<and> b = (priv_sandbox_inst st1 = None)
     \<and> b = (priv_sandbox_proxy st1 = None)
     \<and> (b \<longrightarrow> task_env amb classes task be os_environ st g = (Inr os_environ, st1, g))
     \<and> (\<not> b \<longrightarrow>
          (\<exists>sb. priv_sandbox_inst st1 = Some sb \<and> priv_sandbox_proxy st1 = Some SandboxProxy
                \<and> \<not> is_active amb sb
                \<and> task_env amb classes task be os_environ st g =
                    (fst (env sb be g), st1, snd (env sb be g))))
     \<and> priv_sandbox_initialized st1
     \<and> initialize_sandbox amb classes task False st = (Inr (), st1)
     \<and> st1 = snd (initialize_sandbox amb classes task True init_state)
     \<and> (\<not> b) = (\<exists>e sb. choose_sandbox amb task = Inr (Some e) \<and> e \<noteq> NO_STR
                    \<and> new classes e = Inr sb \<and> \<not> is_active amb sb)
     \<and> (\<not> b \<longrightarrow>
          (\<exists>e sb. choose_sandbox amb task = Inr (Some e) \<and> new classes e = Inr sb
                \<and> priv_effective_sandbox st1 = Some e \<and> priv_sandbox_inst st1 = Some sb))"
proof -
  let ?S = "snd (initialize_sandbox amb classes task True init_state)"
  have inv: "proxy_only_outside amb task st"
    unfolding assms(1) by (rule initialize_many_keeps[OF init_state_outside])
  note r = is_sandboxed_result[OF assms(2)]
  from initialize_sandbox_keeps[OF inv, of classes False] r(1)
  have inv1: "proxy_only_outside amb task st1" by simp
  from initialize_sandbox_initialized[of amb classes task False st] r(1)
  have ini: "priv_sandbox_initialized st1" by simp
  then have again: "initialize_sandbox amb classes task False st1 = (Inr (), st1)"
    by (rule initialize_sandbox_again)
  have b1: "b = (priv_effective_sandbox st1 = Some NO_STR \<or> priv_sandbox_inst st1 = None)"
    by (rule r(2))
  have b2: "b = (priv_sandbox_inst st1 = None)"
    using b1 proxy_only_outside_direct(1)[OF inv1] by simp
  have b3: "b = (priv_sandbox_proxy st1 = None)"
    using b2 proxy_only_outside_direct(2)[OF inv1] by simp
  have e1: "b \<longrightarrow> task_env amb classes task be os_environ st g = (Inr os_environ, st1, g)"
    by (simp add: task_env_def assms(2))
  have e2: "\<not> b \<longrightarrow>
          (\<exists>sb. priv_sandbox_inst st1 = Some sb \<and> priv_sandbox_proxy st1 = Some SandboxProxy
                \<and> \<not> is_active amb sb
                \<and> task_env amb classes task be os_environ st g =
                    (fst (env sb be g), st1, snd (env sb be g)))"
  proof
    assume nb: "\<not> b"
    with b2 obtain sb where sb: "priv_sandbox_inst st1 = Some sb" by auto
    with inv1 have p: "priv_sandbox_proxy st1 = Some SandboxProxy" "\<not> is_active amb sb"
      by (simp_all add: proxy_only_outside_def)
    have "task_env amb classes task be os_environ st g = (fst (env sb be g), st1, snd (env sb be g))"
      using nb sb again by (simp add: task_env_def assms(2) sandbox_inst_def split: prod.splits)
    with sb p show "\<exists>sb. priv_sandbox_inst st1 = Some sb \<and> priv_sandbox_proxy st1 = Some SandboxProxy
                \<and> \<not> is_active amb sb
                \<and> task_env amb classes task be os_environ st g =
                    (fst (env sb be g), st1, snd (env sb be g))"
      by blast
  qed
  have reach: "st = init_state \<or> st = ?S"
    unfolding assms(1) by (rule initialize_many_reach) simp
  from initialize_sandbox_reach[OF reach, of False] r(1)
  have s1: "st1 = ?S" by auto
  have b4: "(\<not> b) = (\<exists>e sb. choose_sandbox amb task = Inr (Some e) \<and> e \<noteq> NO_STR
                    \<and> new classes e = Inr sb \<and> \<not> is_active amb sb)"
  proof -
    have "(\<not> b) = (\<exists>sb. priv_sandbox_inst ?S = Some sb)"
      using b2 s1 by simp
    also have "\<dots> = (\<exists>sb e. choose_sandbox amb task = Inr (Some e) \<and> e \<noteq> NO_STR
                    \<and> new classes e = Inr sb \<and> \<not> is_active amb sb)"
      by (simp only: resolved_inst)
    also have "\<dots> = (\<exists>e sb. choose_sandbox amb task = Inr (Some e) \<and> e \<noteq> NO_STR
                    \<and> new classes e = Inr sb \<and> \<not> is_active amb sb)"
      by (rule ex_comm)
    finally show ?thesis .
  qed
  have e3: "\<not> b \<longrightarrow>
          (\<exists>e sb. choose_sandbox amb task = Inr (Some e) \<and> new classes e = Inr sb
                \<and> priv_effective_sandbox st1 = Some e \<and> priv_sandbox_inst st1 = Some sb)"
  proof
    assume nb: "\<not> b"
    with b4 obtain e sb where c: "choose_sandbox amb task = Inr (Some e)" "e \<noteq> NO_STR"
      "new classes e = Inr sb" "\<not> is_active amb sb" by blast
    then have i: "priv_sandbox_inst ?S = Some sb"
      by (simp only: resolved_inst) blast
    with s1 have i1: "priv_sandbox_inst st1 = Some sb" by simp
    with inv1 have "priv_effective_sandbox st1 = Some (key sb)"
      by (simp add: proxy_only_outside_def)
    with new_key[OF c(3)] have "priv_effective_sandbox st1 = Some e" by simp
    with c(1,3) i1 show "\<exists>e sb. choose_sandbox amb task = Inr (Some e) \<and> new classes e = Inr sb
                \<and> priv_effective_sandbox st1 = Some e \<and> priv_sandbox_inst st1 = Some sb"
      by blast
  qed
  show ?thesis
    apply (intro conjI)
            apply (rule b1)
           apply (rule b2)
          apply (rule b3)
         apply (rule e1)
        apply (rule e2)
       apply (rule ini)
      apply (rule r(1))
     apply (rule s1)
    apply (rule b4)
    apply (rule e3)
    done
qed

text \<open>
  The task designated for \<open>docker::slc7\<close>: inside that sandbox \<open>is_sandboxed\<close> is
  true and the environment is that of the process; outside of any sandbox a proxy wraps
  the task, \<open>is_sandboxed\<close> is false and the environment is the one that the backend
  resolves and caches.
\<close>

theorem is_sandboxed_means_direct_witness:
  "is_sandboxed inside_docker backends docker_task init_state =
     (Inr True, \<lparr>priv_sandbox_initialized = True, priv_effective_sandbox = Some ''docker::slc7'',
                 priv_sandbox_inst = None, priv_sandbox_proxy = None\<rparr>)
   \<and> task_env inside_docker backends docker_task resolving [(''HOME'', ''/root'')] init_state
        process_start =
       (Inr [(''HOME'', ''/root'')],
        \<lparr>priv_sandbox_initialized = True, priv_effective_sandbox = Some ''docker::slc7'',
         priv_sandbox_inst = None, priv_sandbox_proxy = None\<rparr>,
        process_start)
   \<and> is_sandboxed outside backends docker_task init_state =
       (Inr False, \<lparr>priv_sandbox_initialized = True, priv_effective_sandbox = Some ''docker::slc7'',
                    priv_sandbox_inst = Some docker_slc7, priv_sandbox_proxy = Some SandboxProxy\<rparr>)
   \<and> task_env outside backends docker_task resolving [(''HOME'', ''/root'')] init_state
        process_start =
       (Inr [(''PATH'', ''/bin'')],
        \<lparr>priv_sandbox_initialized = True, priv_effective_sandbox = Some ''docker::slc7'',
         priv_sandbox_inst = Some docker_slc7, priv_sandbox_proxy = Some SandboxProxy\<rparr>,
        \<lparr>envs = [(''docker'', ''image'') \<mapsto> [(''PATH'', ''/bin'')]],
         create_env_calls = [(''docker'', ''image'')]\<rparr>)"
proof -
  let ?direct = "\<lparr>priv_sandbox_initialized = True, priv_effective_sandbox = Some ''docker::slc7'',
                 priv_sandbox_inst = None, priv_sandbox_proxy = None\<rparr>"
  let ?wrapped = "\<lparr>priv_sandbox_initialized = True, priv_effective_sandbox = Some ''docker::slc7'',
                  priv_sandbox_inst = Some docker_slc7, priv_sandbox_proxy = Some SandboxProxy\<rparr>"
  have nw: "new backends ''docker::slc7'' = Inr docker_slc7"
    by (simp add: new_def new_key_def check_key_def split_key_def split1_def delimiter_def
        strip_def is_space_def backends_def docker_slc7_def)
  have k: "key docker_slc7 = ''docker::slc7''"
    by (simp add: key_def join_key_def delimiter_def docker_slc7_def)
  have i1: "initialize_sandbox inside_docker backends docker_task False init_state = (Inr (), ?direct)"
    by (simp add: initialize_sandbox_def init_state_def choose_sandbox_def sandbox_switched_def
        current_sandbox_def inside_docker_def Let_def NO_STR_def nw is_active_def k)
  have i2: "initialize_sandbox outside backends docker_task False init_state = (Inr (), ?wrapped)"
    by (simp add: initialize_sandbox_def init_state_def choose_sandbox_def sandbox_switched_def
        current_sandbox_def outside_def docker_task_def Let_def NO_STR_def nw is_active_def k)
  have a1: "initialize_sandbox amb backends docker_task False ?direct = (Inr (), ?direct)" for amb
    by (simp add: initialize_sandbox_def)
  have a2: "initialize_sandbox amb backends docker_task False ?wrapped = (Inr (), ?wrapped)" for amb
    by (simp add: initialize_sandbox_def)
  have s1: "is_sandboxed inside_docker backends docker_task init_state = (Inr True, ?direct)"
    by (simp add: is_sandboxed_def effective_sandbox_def sandbox_inst_def i1 a1 NO_STR_def)
  have s2: "is_sandboxed outside backends docker_task init_state = (Inr False, ?wrapped)"
    by (simp add: is_sandboxed_def effective_sandbox_def sandbox_inst_def i2 a2 NO_STR_def)
  have st: "init_state = initialize_many amb backends docker_task [] init_state" for amb by simp
  have ev: "env docker_slc7 resolving process_start =
      (Inr [(''PATH'', ''/bin'')],
       \<lparr>envs = [(''docker'', ''image'') \<mapsto> [(''PATH'', ''/bin'')]],
        create_env_calls = [(''docker'', ''image'')]\<rparr>)"
    by (simp add: env_def Let_def docker_slc7_def resolving_def process_start_def)
  from is_sandboxed_means_direct[OF st s1, of resolving "[(''HOME'', ''/root'')]" process_start]
  have t1: "task_env inside_docker backends docker_task resolving [(''HOME'', ''/root'')] init_state
        process_start = (Inr [(''HOME'', ''/root'')], ?direct, process_start)"
    by simp
  from is_sandboxed_means_direct[OF st s2, of resolving "[(''HOME'', ''/root'')]" process_start]
  have t2: "task_env outside backends docker_task resolving [(''HOME'', ''/root'')] init_state
        process_start = (fst (env docker_slc7 resolving process_start), ?wrapped,
                         snd (env docker_slc7 resolving process_start))"
    by simp
  from s1 s2 t1 t2 ev show ?thesis by simp
qed

end
